theory Spec2Isabelle
  imports Complex_Main
begin

section \<open>Errors\<close>

text \<open>
  The exceptions of the guide's Python (\<open>ValueError\<close> of a failed unpacking, of
  \<open>tf.unstack\<close>/\<open>tf.stack\<close> and of tensor arithmetic on \<open>None\<close>, \<open>TypeError\<close> of a
  comparison with \<open>None\<close> and of a tensor used as a truth value) and the error taxonomy
  of the specification, as values.
\<close>

datatype error = ValueError | TypeError | ConfigurationError | ShapeMismatchError

section \<open>Tensors and the TensorFlow operations the guide calls\<close>

text \<open>
  A tensor is its shape and its elements in row-major order. Pixel values are
  real numbers here: the rounding of \<open>float32\<close> is not part of the model.
\<close>

record tensor =
  shape :: "nat list"
  elems :: "real list"

definition wf_tensor :: "tensor \<Rightarrow> bool" where
  "wf_tensor t = (length (elems t) = prod_list (shape t))"

definition scalar :: "real \<Rightarrow> tensor" where
  "scalar x = \<lparr>shape = [], elems = [x]\<rparr>"

text \<open>\<open>tf.unstack(t, axis=-1)\<close>: one tensor per index of the last axis; a rank-0 tensor
  cannot be unstacked.\<close>

definition unstack_last :: "tensor \<Rightarrow> error + tensor list" where
  "unstack_last t =
     (if shape t = [] then Inl ValueError
      else let c = last (shape t); n = prod_list (butlast (shape t)) in
        Inr (map (\<lambda>k. \<lparr>shape = butlast (shape t),
                         elems = map (\<lambda>i. elems t ! (i * c + k)) [0..<n]\<rparr>) [0..<c]))"

text \<open>The Python unpacking \<open>[*others, blue] = xs\<close>, which raises on an empty list.\<close>

definition unpack_last :: "'a list \<Rightarrow> error + ('a list \<times> 'a)" where
  "unpack_last xs = (if xs = [] then Inl ValueError else Inr (butlast xs, last xs))"

text \<open>\<open>tf.stack(ts, axis=-1)\<close>: the tensors must be at least one and of one shape.\<close>

definition stack_last :: "tensor list \<Rightarrow> error + tensor" where
  "stack_last ts =
     (case ts of
        [] \<Rightarrow> Inl ValueError
      | t # _ \<Rightarrow>
          if list_all (\<lambda>u. shape u = shape t) ts
          then Inr \<lparr>shape = shape t @ [length ts],
                    elems = concat (map (\<lambda>i. map (\<lambda>u. elems u ! i) ts)
                                        [0..<prod_list (shape t)])\<rparr>
          else Inl ValueError)"

text \<open>\<open>t + k\<close> with a scalar \<open>k\<close>, and \<open>tf.clip_by_value(t, lo, hi)\<close>.\<close>

definition add_scalar :: "tensor \<Rightarrow> real \<Rightarrow> tensor" where
  "add_scalar t k = t\<lparr>elems := map (\<lambda>x. x + k) (elems t)\<rparr>"

definition clip_by_value :: "tensor \<Rightarrow> real \<Rightarrow> real \<Rightarrow> tensor" where
  "clip_by_value t lo hi = t\<lparr>elems := map (\<lambda>x. max (min x hi) lo) (elems t)\<rparr>"

text \<open>Splitting along the leading axis and stacking along a new leading axis. Nothing
  is known of the elements of an empty list: it is stacked to the empty tensor of shape
  \<open>(0,)\<close>.\<close>

definition unstack0 :: "tensor \<Rightarrow> tensor list" where
  "unstack0 t =
     (case shape t of
        [] \<Rightarrow> []
      | b # s \<Rightarrow>
          map (\<lambda>i. \<lparr>shape = s,
                     elems = take (prod_list s) (drop (i * prod_list s) (elems t))\<rparr>) [0..<b])"

definition stack0 :: "tensor list \<Rightarrow> error + tensor" where
  "stack0 ts =
     (case ts of
        [] \<Rightarrow> Inr \<lparr>shape = [0], elems = []\<rparr>
      | t # _ \<Rightarrow>
          if list_all (\<lambda>u. shape u = shape t) ts
          then Inr \<lparr>shape = length ts # shape t, elems = concat (map elems ts)\<rparr>
          else Inl ShapeMismatchError)"

section \<open>The FactorSampler API\<close>

text \<open>
  The random source is explicit state: the stream of raw variates the generator will
  hand out (a unit-interval variate for a uniform draw, a standard normal one for a
  normal draw). A draw reads the head of the stream and returns the rest.
\<close>

type_synonym rng = "nat \<Rightarrow> real"

definition next_variate :: "rng \<Rightarrow> real \<times> rng" where
  "next_variate g = (g 0, \<lambda>n. g (Suc n))"

datatype factor_sampler =
    ConstantFactorSampler real
  | UniformFactorSampler real real
  | NormalFactorSampler real real real real

text \<open>Modelled from the spec: the samplers of \<open>keras_cv\<close> are not part of the guide.
  \<open>draw\<close> is a call \<open>self.factor()\<close>: constant (always the fixed value), uniform
  (low, high), normal (mean, stddev, clamped to [min_value, max_value]).\<close>

fun draw :: "factor_sampler \<Rightarrow> rng \<Rightarrow> real \<times> rng" where
  "draw (ConstantFactorSampler c) g = (c, g)"
| "draw (UniformFactorSampler lo hi) g =
     (let (u, g') = next_variate g in (lo + u * (hi - lo), g'))"
| "draw (NormalFactorSampler mean stddev min_value max_value) g =
     (let (z, g') = next_variate g in
      (max (min (mean + stddev * z) max_value) min_value, g'))"

text \<open>The \<open>factor\<close> argument of the layers: "A tuple of two floats, a single float or a
  \<open>keras_cv.FactorSampler\<close>".\<close>

datatype factor_arg = Float real | Tuple real real | Sampler factor_sampler

text \<open>Modelled from the spec: \<open>preprocessing_utils.parse_factor\<close> is not part of the
  guide. Its cases are those of the layers' docstring: a sampler is taken as it is; "if
  a single float is used, a value between \<open>0.0\<close> and the passed float is sampled"; "if
  a tuple is used, a factor is sampled between the two values"; "to ensure the value is
  always the same, please pass a tuple with two identical floats". A reversed range is
  the specification's ConfigurationError.\<close>

definition parse_factor :: "factor_arg \<Rightarrow> error + factor_sampler" where
  "parse_factor param =
     (case param of
        Sampler s \<Rightarrow> Inr s
      | _ \<Rightarrow>
          (let (lo, hi) = (case param of Float f \<Rightarrow> (0, f) | Tuple a b \<Rightarrow> (a, b))
           in if lo > hi then Inl ConfigurationError
              else if lo = hi then Inr (ConstantFactorSampler lo)
              else Inr (UniformFactorSampler lo hi)))"

text \<open>\<open>n\<close> successive draws, the state threaded through them.\<close>

fun draw_n :: "(rng \<Rightarrow> 'a \<times> rng) \<Rightarrow> nat \<Rightarrow> rng \<Rightarrow> 'a list \<times> rng" where
  "draw_n f 0 g = ([], g)"
| "draw_n f (Suc n) g =
     (let (x, g1) = f g; (xs, g2) = draw_n f n g1 in (x # xs, g2))"

section \<open>RandomBlueTint, the minimal layer\<close>

text \<open>
  \<^verbatim>\<open>
  def augment_image(self, image, transformation=None):
      [*others, blue] = tf.unstack(image, axis=-1)
      blue = tf.clip_by_value(blue + 100, 0.0, 255.0)
      return tf.stack([*others, blue], axis=-1)
  \<close>
\<close>

definition augment_image1 :: "tensor \<Rightarrow> real option \<Rightarrow> error + tensor" where
  "augment_image1 img transformation =
     (case unstack_last img of
        Inl e \<Rightarrow> Inl e
      | Inr planes \<Rightarrow>
          (case unpack_last planes of
             Inl e \<Rightarrow> Inl e
           | Inr (others, blue) \<Rightarrow>
               stack_last (others @ [clip_by_value (add_scalar blue 100) 0 255])))"

section \<open>RandomBlueTint with a factor sampled inside \<open>augment_image\<close>\<close>

text \<open>
  \<^verbatim>\<open>
  def __init__(self, factor, **kwargs):
      self.factor = preprocessing_utils.parse_factor(factor)

  def augment_image(self, image, transformation=None):
      [*others, blue] = tf.unstack(image, axis=-1)
      blue_shift = self.factor() * 255
      blue = tf.clip_by_value(blue + blue_shift, 0.0, 255.0)
      return tf.stack([*others, blue], axis=-1)
  \<close>
  The call \<open>self.factor()\<close> reads the random source, so this method takes the state of
  the source and returns it.
\<close>

definition augment_image2 ::
  "factor_sampler \<Rightarrow> tensor \<Rightarrow> real option \<Rightarrow> rng \<Rightarrow> (error + tensor) \<times> rng" where
  "augment_image2 factor img transformation g =
     (case unstack_last img of
        Inl e \<Rightarrow> (Inl e, g)
      | Inr planes \<Rightarrow>
          (case unpack_last planes of
             Inl e \<Rightarrow> (Inl e, g)
           | Inr (others, blue) \<Rightarrow>
               (let (f, g') = draw factor g;
                    blue_shift = f * 255
                in (stack_last (others @ [clip_by_value (add_scalar blue blue_shift) 0 255]),
                    g'))))"

section \<open>RandomBlueTint with \<open>get_random_transformation\<close>\<close>

text \<open>
  \<^verbatim>\<open>
  def get_random_transformation(self, **kwargs):
      return self.factor() * 255

  def augment_image(self, image, transformation=None, **kwargs):
      [*others, blue] = tf.unstack(image, axis=-1)
      blue = tf.clip_by_value(blue + transformation, 0.0, 255.0)
      return tf.stack([*others, blue], axis=-1)

  def augment_label(self, label, transformation=None, **kwargs):
      if transformation > 100:
          return 2.0
      return label

  def augment_bounding_boxes(self, bounding_boxes, transformation=None, **kwargs):
      return bounding_boxes
  \<close>
  A transformation left at its default \<open>None\<close> makes the addition raise a ValueError
  (no tensor is made of \<open>None\<close>) and the comparison a TypeError.
\<close>

definition get_random_transformation3 :: "factor_sampler \<Rightarrow> rng \<Rightarrow> real option \<times> rng" where
  "get_random_transformation3 factor g = (let (f, g') = draw factor g in (Some (f * 255), g'))"

definition augment_image3 :: "tensor \<Rightarrow> real option \<Rightarrow> error + tensor" where
  "augment_image3 img transformation =
     (case unstack_last img of
        Inl e \<Rightarrow> Inl e
      | Inr planes \<Rightarrow>
          (case unpack_last planes of
             Inl e \<Rightarrow> Inl e
           | Inr (others, blue) \<Rightarrow>
               (case transformation of
                  None \<Rightarrow> Inl ValueError
                | Some t \<Rightarrow>
                    stack_last (others @ [clip_by_value (add_scalar blue t) 0 255]))))"

definition augment_label3 :: "tensor \<Rightarrow> real option \<Rightarrow> error + tensor" where
  "augment_label3 label transformation =
     (case transformation of
        None \<Rightarrow> Inl TypeError
      | Some t \<Rightarrow> if t > 100 then Inr (scalar 2) else Inr label)"

definition augment_bounding_boxes3 :: "tensor \<Rightarrow> real option \<Rightarrow> error + tensor" where
  "augment_bounding_boxes3 bounding_boxes transformation = Inr bounding_boxes"

section \<open>RandomBlueTint with \<open>value_range\<close>\<close>

text \<open>Modelled from the spec: \<open>preprocessing_utils.transform_value_range\<close> is not part
  of the guide. It is the Value-Range Normalizer: a linear rescaling of the values from
  one declared range onto another, failing with ConfigurationError on a degenerate
  range (the invariant of a range is low < high).\<close>

definition rescale :: "real \<times> real \<Rightarrow> real \<times> real \<Rightarrow> real \<Rightarrow> real" where
  "rescale original_range target_range x =
     (x - fst original_range) / (snd original_range - fst original_range)
       * (snd target_range - fst target_range) + fst target_range"

definition transform_value_range ::
  "tensor \<Rightarrow> real \<times> real \<Rightarrow> real \<times> real \<Rightarrow> error + tensor" where
  "transform_value_range t original_range target_range =
     (if fst original_range < snd original_range \<and> fst target_range < snd target_range
      then Inr (t\<lparr>elems := map (rescale original_range target_range) (elems t)\<rparr>)
      else Inl ConfigurationError)"

text \<open>The two directions as \<open>augment_image\<close> uses them, the canonical range being
  \<open>(0, 255)\<close>.\<close>

definition to_canonical :: "tensor \<Rightarrow> real \<times> real \<Rightarrow> error + tensor" where
  "to_canonical t declared_range = transform_value_range t declared_range (0, 255)"

definition from_canonical :: "tensor \<Rightarrow> real \<times> real \<Rightarrow> error + tensor" where
  "from_canonical t declared_range = transform_value_range t (0, 255) declared_range"

text \<open>
  \<^verbatim>\<open>
  def augment_image(self, image, transformation=None, **kwargs):
      image = preprocessing_utils.transform_value_range(image, self.value_range, (0, 255))
      [*others, blue] = tf.unstack(image, axis=-1)
      blue = tf.clip_by_value(blue + transformation, 0.0, 255.0)
      result = tf.stack([*others, blue], axis=-1)
      result = preprocessing_utils.transform_value_range(result, (0, 255), self.value_range)
      return result
  \<close>
\<close>

definition augment_image4 :: "real \<times> real \<Rightarrow> tensor \<Rightarrow> real option \<Rightarrow> error + tensor" where
  "augment_image4 value_range img transformation =
     (case transform_value_range img value_range (0, 255) of
        Inl e \<Rightarrow> Inl e
      | Inr img' \<Rightarrow>
          (case unstack_last img' of
             Inl e \<Rightarrow> Inl e
           | Inr planes \<Rightarrow>
               (case unpack_last planes of
                  Inl e \<Rightarrow> Inl e
                | Inr (others, blue) \<Rightarrow>
                    (case transformation of
                       None \<Rightarrow> Inl ValueError
                     | Some t \<Rightarrow>
                         (case stack_last (others @ [clip_by_value (add_scalar blue t) 0 255]) of
                            Inl e \<Rightarrow> Inl e
                          | Inr result \<Rightarrow>
                              transform_value_range result (0, 255) value_range)))))"

section \<open>The image transforms as methods\<close>

text \<open>
  A Python method receives references to tensor objects, may write to them, and may call
  the random generator. The state a method runs in is the random source and the store of
  the tensor objects; a reference is an index into the store.
\<close>

type_synonym ref = nat

record world =
  source :: rng
  store :: "tensor list"

type_synonym 'a call = "world \<Rightarrow> (error + 'a) \<times> world"

text \<open>A statement after a statement: an exception ends the method.\<close>

definition bind_call :: "'a call \<Rightarrow> ('a \<Rightarrow> 'b call) \<Rightarrow> 'b call" where
  "bind_call m f w = (case m w of (Inl e, w') \<Rightarrow> (Inl e, w') | (Inr x, w') \<Rightarrow> f x w')"

text \<open>A new tensor object.\<close>

definition new_tensor :: "tensor \<Rightarrow> ref call" where
  "new_tensor t w = (Inr (length (store w)), w\<lparr>store := store w @ [t]\<rparr>)"

text \<open>The operations of TensorFlow on references. Each of them reads its arguments and
  returns new objects.\<close>

definition tf_unstack :: "ref \<Rightarrow> ref list call" where
  "tf_unstack a w =
     (case unstack_last (store w ! a) of
        Inl e \<Rightarrow> (Inl e, w)
      | Inr planes \<Rightarrow>
          (Inr [length (store w)..<length (store w) + length planes],
           w\<lparr>store := store w @ planes\<rparr>))"

definition unpack :: "'a list \<Rightarrow> ('a list \<times> 'a) call" where
  "unpack xs w = (unpack_last xs, w)"

definition tf_add :: "ref \<Rightarrow> real option \<Rightarrow> ref call" where
  "tf_add a k w =
     (case k of
        None \<Rightarrow> (Inl ValueError, w)
      | Some x \<Rightarrow> new_tensor (add_scalar (store w ! a) x) w)"

definition tf_clip_by_value :: "ref \<Rightarrow> real \<Rightarrow> real \<Rightarrow> ref call" where
  "tf_clip_by_value a lo hi w = new_tensor (clip_by_value (store w ! a) lo hi) w"

definition tf_stack :: "ref list \<Rightarrow> ref call" where
  "tf_stack rs w =
     (case stack_last (map (\<lambda>r. store w ! r) rs) of
        Inl e \<Rightarrow> (Inl e, w)
      | Inr t \<Rightarrow> new_tensor t w)"

definition tf_transform_value_range :: "ref \<Rightarrow> real \<times> real \<Rightarrow> real \<times> real \<Rightarrow> ref call" where
  "tf_transform_value_range a original_range target_range w =
     (case transform_value_range (store w ! a) original_range target_range of
        Inl e \<Rightarrow> (Inl e, w)
      | Inr t \<Rightarrow> new_tensor t w)"

text \<open>The call \<open>self.factor()\<close>: a draw from the random source.\<close>

definition factor_call :: "factor_sampler \<Rightarrow> real call" where
  "factor_call factor w = (let (f, g') = draw factor (source w) in (Inr f, w\<lparr>source := g'\<rparr>))"

text \<open>The four \<open>augment_image\<close> methods of the guide, statement by statement.\<close>

definition augment_image1_call :: "ref \<Rightarrow> real option \<Rightarrow> ref call" where
  "augment_image1_call img transformation =
     bind_call (tf_unstack img) (\<lambda>planes.
     bind_call (unpack planes) (\<lambda>(others, blue).
     bind_call (tf_add blue (Some 100)) (\<lambda>shifted.
     bind_call (tf_clip_by_value shifted 0 255) (\<lambda>blue'.
     tf_stack (others @ [blue'])))))"

definition augment_image2_call :: "factor_sampler \<Rightarrow> ref \<Rightarrow> real option \<Rightarrow> ref call" where
  "augment_image2_call factor img transformation =
     bind_call (tf_unstack img) (\<lambda>planes.
     bind_call (unpack planes) (\<lambda>(others, blue).
     bind_call (factor_call factor) (\<lambda>f.
     let blue_shift = f * 255 in
     bind_call (tf_add blue (Some blue_shift)) (\<lambda>shifted.
     bind_call (tf_clip_by_value shifted 0 255) (\<lambda>blue'.
     tf_stack (others @ [blue']))))))"

definition augment_image3_call :: "ref \<Rightarrow> real option \<Rightarrow> ref call" where
  "augment_image3_call img transformation =
     bind_call (tf_unstack img) (\<lambda>planes.
     bind_call (unpack planes) (\<lambda>(others, blue).
     bind_call (tf_add blue transformation) (\<lambda>shifted.
     bind_call (tf_clip_by_value shifted 0 255) (\<lambda>blue'.
     tf_stack (others @ [blue'])))))"

definition augment_image4_call :: "real \<times> real \<Rightarrow> ref \<Rightarrow> real option \<Rightarrow> ref call" where
  "augment_image4_call value_range img transformation =
     bind_call (tf_transform_value_range img value_range (0, 255)) (\<lambda>img'.
     bind_call (tf_unstack img') (\<lambda>planes.
     bind_call (unpack planes) (\<lambda>(others, blue).
     bind_call (tf_add blue transformation) (\<lambda>shifted.
     bind_call (tf_clip_by_value shifted 0 255) (\<lambda>blue'.
     bind_call (tf_stack (others @ [blue'])) (\<lambda>result.
     tf_transform_value_range result (0, 255) value_range))))))"

text \<open>A method called on an image: the image is an object of the store, and the caller
  reads the object the method returns.\<close>

definition call_method ::
  "(ref \<Rightarrow> real option \<Rightarrow> ref call) \<Rightarrow> tensor \<Rightarrow> real option \<Rightarrow> rng
     \<Rightarrow> (error + tensor) \<times> rng" where
  "call_method m img transformation g =
     (case m 0 transformation \<lparr>source = g, store = [img]\<rparr> of
        (Inl e, w) \<Rightarrow> (Inl e, source w)
      | (Inr r, w) \<Rightarrow> (Inr (store w ! r), source w))"

section \<open>BaseImageAugmentationLayer\<close>

text \<open>
  The layer is called on a tensor of images or on a dictionary
  \<open>{"images": ..., "labels": ..., "bounding_boxes": ...}\<close>; a bare tensor is the
  dictionary with the images alone.
\<close>

record inputs =
  images :: tensor
  labels :: "tensor option"
  bounding_boxes :: "tensor option"

text \<open>
  A layer is the table of the methods a subclass may override, and the flag
  \<open>auto_vectorize\<close>. \<open>augment_image\<close> is an arbitrary Python method, so it may read
  the random source: it takes the state of the source and returns it.
  \<open>vectorized_augment\<close> is the batched fast path of the specification, when the layer
  has one: it is invoked once on a whole batch, with the descriptors of the samples.
\<close>

record layer =
  get_random_transformation :: "rng \<Rightarrow> real option \<times> rng"
  augment_image :: "tensor \<Rightarrow> real option \<Rightarrow> rng \<Rightarrow> (error + tensor) \<times> rng"
  augment_label :: "tensor \<Rightarrow> real option \<Rightarrow> error + tensor"
  augment_bounding_boxes :: "tensor \<Rightarrow> real option \<Rightarrow> error + tensor"
  vectorized_augment :: "(inputs \<Rightarrow> real option list \<Rightarrow> error + inputs) option"
  auto_vectorize :: bool

text \<open>Modelled from the spec: the base class of \<open>keras_cv\<close> is not part of the guide.
  Section 4.2: fields without an override pass through unchanged; the default
  transformation is \<open>None\<close>, the default of the \<open>transformation\<close> arguments. No
  batched fast path is supplied: a layer that overrides \<open>augment_image\<close> alone has its
  batches iterated per sample (section 4.4).\<close>

definition BaseImageAugmentationLayer :: layer where
  "BaseImageAugmentationLayer =
     \<lparr>get_random_transformation = (\<lambda>g. (None, g)),
      augment_image = (\<lambda>img t g. (Inr img, g)),
      augment_label = (\<lambda>label t. Inr label),
      augment_bounding_boxes = (\<lambda>boxes t. Inr boxes),
      vectorized_augment = None,
      auto_vectorize = True\<rparr>"

text \<open>A target that is present is transformed with the sample's descriptor.\<close>

definition augment_target ::
  "(tensor \<Rightarrow> real option \<Rightarrow> error + tensor) \<Rightarrow> tensor option \<Rightarrow> real option
     \<Rightarrow> error + tensor option" where
  "augment_target f x t =
     (case x of
        None \<Rightarrow> Inr None
      | Some v \<Rightarrow> (case f v t of Inl e \<Rightarrow> Inl e | Inr v' \<Rightarrow> Inr (Some v')))"

text \<open>Modelled from the spec: the per-sample step of the dispatcher. The descriptor is
  produced once by \<open>get_random_transformation\<close> and passed unchanged to every
  field-specific transform of the sample.\<close>

definition augment :: "layer \<Rightarrow> inputs \<Rightarrow> rng \<Rightarrow> (error + inputs) \<times> rng" where
  "augment L inp g =
     (let (t, g1) = get_random_transformation L g;
          (r, g2) = augment_image L (images inp) t g1
      in case r of
           Inl e \<Rightarrow> (Inl e, g2)
         | Inr img \<Rightarrow>
             (case augment_target (augment_label L) (labels inp) t of
                Inl e \<Rightarrow> (Inl e, g2)
              | Inr lab \<Rightarrow>
                  (case augment_target (augment_bounding_boxes L) (bounding_boxes inp) t of
                     Inl e \<Rightarrow> (Inl e, g2)
                   | Inr boxes \<Rightarrow>
                       (Inr \<lparr>images = img, labels = lab, bounding_boxes = boxes\<rparr>, g2))))"

text \<open>The results of a loop, up to the first error.\<close>

fun collect :: "(error + 'a) list \<Rightarrow> error + 'a list" where
  "collect [] = Inr []"
| "collect (Inl e # rs) = Inl e"
| "collect (Inr x # rs) = (case collect rs of Inl e \<Rightarrow> Inl e | Inr xs \<Rightarrow> Inr (x # xs))"

text \<open>Modelled from the spec: the manual loop over the images of a batch, each
  iteration drawing a fresh descriptor; it returns the descriptors with the results.\<close>

fun image_loop ::
  "layer \<Rightarrow> tensor list \<Rightarrow> rng \<Rightarrow> (error + (real option list \<times> tensor list)) \<times> rng" where
  "image_loop L [] g = (Inr ([], []), g)"
| "image_loop L (x # xs) g =
     (let (t, g1) = get_random_transformation L g;
          (r, g2) = augment_image L x t g1
      in case r of
           Inl e \<Rightarrow> (Inl e, g2)
         | Inr y \<Rightarrow>
             (case image_loop L xs g2 of
                (Inl e, g3) \<Rightarrow> (Inl e, g3)
              | (Inr (ts, ys), g3) \<Rightarrow> (Inr (t # ts, y # ys), g3)))"

text \<open>Modelled from the spec: on the manual loop a batched target is split along its
  leading axis, each slice is transformed with the descriptor of its sample, and the
  results are stacked in the input's order. A field whose leading dimension is not the
  batch size is the specification's ShapeMismatchError, and so are results that do not
  stack.\<close>

definition batch_target ::
  "(tensor \<Rightarrow> real option \<Rightarrow> error + tensor) \<Rightarrow> tensor option \<Rightarrow> real option list
     \<Rightarrow> error + tensor option" where
  "batch_target f x ts =
     (case x of
        None \<Rightarrow> Inr None
      | Some v \<Rightarrow>
          if shape v = [] \<or> hd (shape v) \<noteq> length ts then Inl ShapeMismatchError
          else
            (case collect (map2 f (unstack0 v) ts) of
               Inl e \<Rightarrow> Inl e
             | Inr rs \<Rightarrow>
                 (case stack0 rs of
                    Inl e \<Rightarrow> Inl e
                  | Inr v' \<Rightarrow> Inr (Some v'))))"

definition batch_targets ::
  "layer \<Rightarrow> inputs \<Rightarrow> real option list \<Rightarrow> error + tensor \<Rightarrow> error + inputs" where
  "batch_targets L inp ts r =
     (case r of
        Inl e \<Rightarrow> Inl e
      | Inr imgs \<Rightarrow>
          (case batch_target (augment_label L) (labels inp) ts of
             Inl e \<Rightarrow> Inl e
           | Inr lab \<Rightarrow>
               (case batch_target (augment_bounding_boxes L) (bounding_boxes inp) ts of
                  Inl e \<Rightarrow> Inl e
                | Inr boxes \<Rightarrow> Inr \<lparr>images = imgs, labels = lab, bounding_boxes = boxes\<rparr>)))"

text \<open>Modelled from the spec: the batch step of the dispatcher (section 4.4). If a
  batched fast path is supplied and vectorization is not disabled, it is invoked once on
  the whole batch, with one descriptor drawn for each sample; otherwise the images are
  iterated per sample, each iteration drawing a fresh descriptor, and the results are
  reassembled in the input's order.\<close>

definition batch_augment :: "layer \<Rightarrow> inputs \<Rightarrow> rng \<Rightarrow> (error + inputs) \<times> rng" where
  "batch_augment L inp g =
     (case (if auto_vectorize L then vectorized_augment L else None) of
        Some fast \<Rightarrow>
          (let (ts, g1) = draw_n (get_random_transformation L) (hd (shape (images inp))) g
           in (fast inp ts, g1))
      | None \<Rightarrow>
          (case image_loop L (unstack0 (images inp)) g of
             (Inl e, g1) \<Rightarrow> (Inl e, g1)
           | (Inr (ts, rs), g1) \<Rightarrow> (batch_targets L inp ts (stack0 rs), g1)))"

text \<open>Modelled from the spec: \<open>process\<close>, the call of a layer. The guide: "support for
  unbatched inputs (HWC Tensor)", "support for batched inputs (BHWC Tensor)".\<close>

definition process :: "layer \<Rightarrow> inputs \<Rightarrow> rng \<Rightarrow> (error + inputs) \<times> rng" where
  "process L inp g =
     (if length (shape (images inp)) = 3 then augment L inp g
      else if length (shape (images inp)) = 4 then batch_augment L inp g
      else (Inl ValueError, g))"

section \<open>The layers of the guide\<close>

text \<open>The broadcast of \<open>blue + transformation\<close> on a batch: every sample of the
  batched plane is shifted by its own descriptor.\<close>

definition add_per_sample :: "tensor \<Rightarrow> real list \<Rightarrow> tensor" where
  "add_per_sample t ks =
     t\<lparr>elems := concat (map2 (\<lambda>u k. map (\<lambda>x. x + k) (elems u)) (unstack0 t) ks)\<rparr>"

text \<open>Modelled from the spec: the batched fast paths. The guide's layers get theirs
  from the base class ("automatic vectorization on batched inputs"), which is not part of
  the guide: the methods of the layer are run once on the whole batch, the descriptors
  of the samples being a batch too. \<open>augment_image\<close> acts on the last axis or element
  by element, so its operations run on the \<open>BHWC\<close> tensor as they are. The test
  \<open>if transformation > 100\<close> of \<open>augment_label\<close> has no truth value on a batch of
  descriptors: it raises ("Some layers are not able to be automatically vectorizated.
  If you receive an error when invoking your layer, try adding \<open>auto_vectorize =
  False\<close>"). Methods that return their argument return the batch.\<close>

definition vectorized_augment1 :: "inputs \<Rightarrow> real option list \<Rightarrow> error + inputs" where
  "vectorized_augment1 inp ts =
     (case augment_image1 (images inp) None of
        Inl e \<Rightarrow> Inl e
      | Inr imgs \<Rightarrow> Inr (inp\<lparr>images := imgs\<rparr>))"

definition vectorized_augment_image3 :: "tensor \<Rightarrow> real option list \<Rightarrow> error + tensor" where
  "vectorized_augment_image3 imgs ts =
     (case unstack_last imgs of
        Inl e \<Rightarrow> Inl e
      | Inr planes \<Rightarrow>
          (case unpack_last planes of
             Inl e \<Rightarrow> Inl e
           | Inr (others, blue) \<Rightarrow>
               (case those ts of
                  None \<Rightarrow> Inl ValueError
                | Some ks \<Rightarrow>
                    stack_last (others @ [clip_by_value (add_per_sample blue ks) 0 255]))))"

definition vectorized_augment3 :: "inputs \<Rightarrow> real option list \<Rightarrow> error + inputs" where
  "vectorized_augment3 inp ts =
     (case vectorized_augment_image3 (images inp) ts of
        Inl e \<Rightarrow> Inl e
      | Inr imgs \<Rightarrow>
          (case labels inp of
             Some label \<Rightarrow> Inl TypeError
           | None \<Rightarrow> Inr (inp\<lparr>images := imgs\<rparr>)))"

text \<open>The layer that samples its factor inside \<open>augment_image\<close> has no fast path here,
  its transform not being a function of the image and the descriptor; nor has the layer
  with \<open>value_range\<close>, whose two paths round their rescalings differently in
  \<open>float32\<close>, which real numbers do not show. The batches of both go through the
  loop.\<close>

definition RandomBlueTint1 :: layer where
  "RandomBlueTint1 =
     BaseImageAugmentationLayer
       \<lparr>augment_image := call_method augment_image1_call,
        vectorized_augment := Some vectorized_augment1\<rparr>"

definition RandomBlueTint2 :: "factor_arg \<Rightarrow> error + layer" where
  "RandomBlueTint2 factor =
     (case parse_factor factor of
        Inl e \<Rightarrow> Inl e
      | Inr s \<Rightarrow>
          Inr (BaseImageAugmentationLayer
                 \<lparr>augment_image := call_method (augment_image2_call s)\<rparr>))"

definition RandomBlueTint3 :: "factor_arg \<Rightarrow> error + layer" where
  "RandomBlueTint3 factor =
     (case parse_factor factor of
        Inl e \<Rightarrow> Inl e
      | Inr s \<Rightarrow>
          Inr (BaseImageAugmentationLayer
                 \<lparr>get_random_transformation := get_random_transformation3 s,
                  augment_image := call_method augment_image3_call,
                  augment_label := augment_label3,
                  augment_bounding_boxes := augment_bounding_boxes3,
                  vectorized_augment := Some vectorized_augment3\<rparr>))"

definition RandomBlueTint4 :: "real \<times> real \<Rightarrow> factor_arg \<Rightarrow> error + layer" where
  "RandomBlueTint4 value_range factor =
     (case parse_factor factor of
        Inl e \<Rightarrow> Inl e
      | Inr s \<Rightarrow>
          Inr (BaseImageAugmentationLayer
                 \<lparr>get_random_transformation := get_random_transformation3 s,
                  augment_image := call_method (augment_image4_call value_range),
                  augment_label := augment_label3,
                  augment_bounding_boxes := augment_bounding_boxes3\<rparr>))"

text \<open>
  \<^verbatim>\<open>
  class UnVectorizable(keras_cv.layers.BaseImageAugmentationLayer):
      def __init__(self, **kwargs):
          super().__init__(**kwargs)
          # this disables BaseImageAugmentationLayer's Auto Vectorization
          self.auto_vectorize = False
  \<close>
  The two lines are to be added to the constructor of a layer, here to a layer that is
  built already.
\<close>

definition UnVectorizable :: "layer \<Rightarrow> layer" where
  "UnVectorizable L = L\<lparr>auto_vectorize := False\<rparr>"

section \<open>The tint on the flat element list\<close>

text \<open>
  What the layers do to a tensor whose last axis has \<open>c\<close> channels, read off the
  row-major element list: the element at position \<open>j\<close> belongs to the last channel
  when \<open>j mod c = c - 1\<close>; it is shifted by \<open>k j\<close> and clipped to \<open>[0, 255]\<close>; every
  other element is kept.
\<close>

definition tint :: "nat \<Rightarrow> (nat \<Rightarrow> real) \<Rightarrow> real list \<Rightarrow> real list" where
  "tint c k xs =
     map (\<lambda>j. if j mod c = c - 1 then max (min (xs ! j + k j) 255) 0 else xs ! j)
         [0..<length xs]"

text \<open>The element \<open>(n, i, j, c)\<close> of a \<open>BHWC\<close> tensor.\<close>

definition at4 :: "tensor \<Rightarrow> nat \<Rightarrow> nat \<Rightarrow> nat \<Rightarrow> nat \<Rightarrow> real" where
  "at4 t n i j c =
     (case shape t of
        [b, h, w, ch] \<Rightarrow> elems t ! (((n * h + i) * w + j) * ch + c)
      | _ \<Rightarrow> 0)"

section \<open>Descriptors of a batch\<close>

text \<open>The state of the random source after \<open>n\<close> calls of a sampling function, and the
  value of the call number \<open>i\<close> (from 0).\<close>

definition source_after :: "(rng \<Rightarrow> 'a \<times> rng) \<Rightarrow> nat \<Rightarrow> rng \<Rightarrow> rng" where
  "source_after f n g = ((\<lambda>h. snd (f h)) ^^ n) g"

definition nth_draw :: "(rng \<Rightarrow> 'a \<times> rng) \<Rightarrow> nat \<Rightarrow> rng \<Rightarrow> 'a" where
  "nth_draw f i g = fst (f (source_after f i g))"

text \<open>A target of a batch of \<open>n\<close> samples: absent, or a well-formed tensor whose leading
  dimension is \<open>n\<close>.\<close>

definition batch_field :: "nat \<Rightarrow> tensor option \<Rightarrow> bool" where
  "batch_field n x =
     (case x of None \<Rightarrow> True | Some v \<Rightarrow> wf_tensor v \<and> shape v \<noteq> [] \<and> hd (shape v) = n)"

section \<open>Unstacking and stacking\<close>

lemma upt_block: "[0..<Suc n * c] = [0..<n * c] @ map (\<lambda>k. n * c + k) [0..<c]"
proof -
  have "[0..<n * c + c] = [0..<n * c] @ [n * c..<n * c + c]"
    by (rule upt_add_eq_append) simp
  moreover have "[n * c..<n * c + c] = map (\<lambda>k. n * c + k) [0..<c]"
    using map_add_upt[of "n * c" c] by (simp add: add.commute)
  ultimately show ?thesis by (simp add: add.commute)
qed

lemma concat_rows:
  "concat (map (\<lambda>i. map (\<lambda>k. g (i * c + k)) [0..<c]) [0..<n]) = map g [0..<n * c]"
proof (induction n)
  case 0
  then show ?case by simp
next
  case (Suc n)
  show ?case unfolding upt_block using Suc by (simp add: o_def)
qed

lemma prod_list_butlast:
  "s \<noteq> [] \<Longrightarrow> prod_list (butlast s) * last s = prod_list s"
  by (induction s) (auto simp: mult.assoc)

lemma butlast_map_upt: "butlast (map f [0..<c]) = map f [0..<c - 1]"
  by (cases c) simp_all

lemma replaced_planes:
  assumes "0 < c"
  shows "map f [0..<c - 1] @ [b] = map (\<lambda>k. if k = c - 1 then b else f k) [0..<c]"
proof -
  obtain d where c: "c = Suc d" using assms by (cases c) auto
  show ?thesis unfolding c by simp
qed

lemma stack_last_same:
  assumes "ts \<noteq> []" and "\<And>u. u \<in> set ts \<Longrightarrow> shape u = s"
  shows "stack_last ts =
         Inr \<lparr>shape = s @ [length ts],
              elems = concat (map (\<lambda>i. map (\<lambda>u. elems u ! i) ts) [0..<prod_list s])\<rparr>"
proof (cases ts)
  case Nil
  with assms show ?thesis by simp
next
  case (Cons t ts')
  then have "shape t = s" using assms(2) by simp
  moreover have "list_all (\<lambda>u. shape u = s) ts" using assms(2) by (simp add: list_all_iff)
  ultimately show ?thesis using Cons by (simp add: stack_last_def)
qed

lemma stack_replace_last:
  assumes wf: "wf_tensor t" and ne: "shape t \<noteq> []" and c: "0 < last (shape t)"
    and us: "unstack_last t = Inr planes"
    and sb: "shape b = butlast (shape t)"
  shows "stack_last (butlast planes @ [b]) =
         Inr \<lparr>shape = shape t,
              elems = map (\<lambda>j. if j mod last (shape t) = last (shape t) - 1
                                 then elems b ! (j div last (shape t)) else elems t ! j)
                          [0..<length (elems t)]\<rparr>"
proof -
  define C where "C = last (shape t)"
  define N where "N = prod_list (butlast (shape t))"
  define P where "P = (\<lambda>k. \<lparr>shape = butlast (shape t),
                         elems = map (\<lambda>i. elems t ! (i * C + k)) [0..<N]\<rparr>)"
  have planes: "planes = map P [0..<C]"
    using us ne by (simp add: unstack_last_def C_def N_def P_def Let_def)
  define Q where "Q = (\<lambda>k. if k = C - 1 then b else P k)"
  have ps: "butlast planes @ [b] = map Q [0..<C]"
    unfolding planes butlast_map_upt Q_def using c replaced_planes[of C P b] by (simp add: C_def)
  have shQ: "shape (Q k) = butlast (shape t)" for k
    by (simp add: Q_def P_def sb)
  have len: "length (elems t) = N * C"
    using wf ne prod_list_butlast[of "shape t"] by (simp add: wf_tensor_def N_def C_def)
  have row: "map (\<lambda>u. elems u ! i) (map Q [0..<C]) =
             map (\<lambda>k. (\<lambda>j. if j mod C = C - 1 then elems b ! (j div C) else elems t ! j) (i * C + k))
                 [0..<C]" if "i < N" for i
  proof (rule nth_equalityI)
    show "length (map (\<lambda>u. elems u ! i) (map Q [0..<C])) =
          length (map (\<lambda>k. (\<lambda>j. if j mod C = C - 1 then elems b ! (j div C) else elems t ! j) (i * C + k)) [0..<C])"
      by simp
  next
    fix k assume "k < length (map (\<lambda>u. elems u ! i) (map Q [0..<C]))"
    then have k: "k < C" by simp
    then have m: "(i * C + k) mod C = k" and dv: "(i * C + k) div C = i" by simp_all
    have rhs: "(\<lambda>j. if j mod C = C - 1 then elems b ! (j div C) else elems t ! j) (i * C + k) =
               (if k = C - 1 then elems b ! i else elems t ! (i * C + k))"
      by (simp only: m dv)
    have lhs: "elems (Q k) ! i = (if k = C - 1 then elems b ! i else elems t ! (i * C + k))"
      using that by (simp add: Q_def P_def)
    show "map (\<lambda>u. elems u ! i) (map Q [0..<C]) ! k =
          map (\<lambda>k. (\<lambda>j. if j mod C = C - 1 then elems b ! (j div C) else elems t ! j) (i * C + k)) [0..<C] ! k"
      using k by (simp only: nth_map length_map length_upt diff_zero nth_upt add_0 lhs rhs)
  qed
  have "concat (map (\<lambda>i. map (\<lambda>u. elems u ! i) (map Q [0..<C])) [0..<N]) =
        concat (map (\<lambda>i. map (\<lambda>k. (\<lambda>j. if j mod C = C - 1 then elems b ! (j div C) else elems t ! j) (i * C + k)) [0..<C]) [0..<N])"
    by (rule arg_cong[where f = concat], rule map_cong, rule refl, rule row) simp
  also have "\<dots> = map (\<lambda>j. if j mod C = C - 1 then elems b ! (j div C) else elems t ! j) [0..<N * C]"
    by (rule concat_rows)
  finally have el: "concat (map (\<lambda>i. map (\<lambda>u. elems u ! i) (map Q [0..<C])) [0..<N]) =
        map (\<lambda>j. if j mod C = C - 1 then elems b ! (j div C) else elems t ! j) [0..<length (elems t)]"
    by (simp add: len)
  have "map Q [0..<C] \<noteq> []" using c by (simp add: C_def)
  then have "stack_last (map Q [0..<C]) =
        Inr \<lparr>shape = butlast (shape t) @ [length (map Q [0..<C])],
             elems = concat (map (\<lambda>i. map (\<lambda>u. elems u ! i) (map Q [0..<C])) [0..<prod_list (butlast (shape t))])\<rparr>"
    by (rule stack_last_same) (auto simp: shQ)
  then show ?thesis
    unfolding ps el[unfolded N_def] using ne by (simp add: C_def)
qed


lemma unstack_last_planes:
  assumes "shape t \<noteq> []" and "0 < last (shape t)"
  shows "\<exists>planes. unstack_last t = Inr planes \<and>
           unpack_last planes = Inr (butlast planes, last planes) \<and>
           last planes = \<lparr>shape = butlast (shape t),
                           elems = map (\<lambda>i. elems t ! (i * last (shape t) + (last (shape t) - 1)))
                                       [0..<prod_list (butlast (shape t))]\<rparr>"
proof -
  obtain d where d: "last (shape t) = Suc d" using assms(2) by (cases "last (shape t)") auto
  show ?thesis
    using assms(1) by (simp add: unstack_last_def unpack_last_def Let_def d)
qed

lemma tint_nth:
  "j < length xs \<Longrightarrow>
   tint c k xs ! j = (if j mod c = c - 1 then max (min (xs ! j + k j) 255) 0 else xs ! j)"
  by (simp add: tint_def)

lemma length_tint: "length (tint c k xs) = length xs"
  by (simp add: tint_def)

lemma last_plane_index:
  assumes "0 < (c::nat)" and "j mod c = c - 1"
  shows "j div c * c + (c - 1) = j"
  using assms by (metis div_mult_mod_eq)

lemma augment_image3_eq:
  assumes wf: "wf_tensor t" and ne: "shape t \<noteq> []" and c: "0 < last (shape t)"
  shows "augment_image3 t (Some k) =
         Inr \<lparr>shape = shape t, elems = tint (last (shape t)) (\<lambda>j. k) (elems t)\<rparr>"
proof -
  define C where "C = last (shape t)"
  define N where "N = prod_list (butlast (shape t))"
  obtain planes where us: "unstack_last t = Inr planes"
    and up: "unpack_last planes = Inr (butlast planes, last planes)"
    and lp: "last planes = \<lparr>shape = butlast (shape t),
                           elems = map (\<lambda>i. elems t ! (i * C + (C - 1))) [0..<N]\<rparr>"
    using unstack_last_planes[OF ne c] unfolding C_def N_def by blast
  define b where "b = clip_by_value (add_scalar (last planes) k) 0 255"
  have sb: "shape b = butlast (shape t)"
    by (simp add: b_def clip_by_value_def add_scalar_def lp)
  have len: "length (elems t) = N * C"
    using wf ne prod_list_butlast[of "shape t"] by (simp add: wf_tensor_def N_def C_def)
  have eb: "elems b ! (j div C) = max (min (elems t ! j + k) 255) 0"
    if "j < length (elems t)" "j mod C = C - 1" for j
  proof -
    have "j div C < N" using that(1) len c
      by (simp add: C_def less_mult_imp_div_less)
    then show ?thesis
      using last_plane_index[of C j] that(2) c
      by (simp add: b_def clip_by_value_def add_scalar_def lp C_def)
  qed
  have "stack_last (butlast planes @ [b]) =
        Inr \<lparr>shape = shape t,
             elems = map (\<lambda>j. if j mod C = C - 1 then elems b ! (j div C) else elems t ! j)
                         [0..<length (elems t)]\<rparr>"
    unfolding C_def by (rule stack_replace_last[OF wf ne c us sb])
  also have "map (\<lambda>j. if j mod C = C - 1 then elems b ! (j div C) else elems t ! j)
                 [0..<length (elems t)] = tint C (\<lambda>j. k) (elems t)"
    unfolding tint_def by (rule map_cong) (auto simp: eb)
  finally show ?thesis
    by (simp add: augment_image3_def us up b_def C_def)
qed

lemma take_drop_block:
  assumes "i * m + m \<le> length xs"
  shows "take m (drop (i * m) xs) = map (\<lambda>j. xs ! (i * m + j)) [0..<m]"
proof (rule nth_equalityI)
  show "length (take m (drop (i * m) xs)) = length (map (\<lambda>j. xs ! (i * m + j)) [0..<m])"
    using assms by simp
next
  fix j assume "j < length (take m (drop (i * m) xs))"
  then have "j < m" by simp
  then show "take m (drop (i * m) xs) ! j = map (\<lambda>j. xs ! (i * m + j)) [0..<m] ! j"
    using assms by simp
qed

lemma unstack0_eq:
  assumes "shape t = b # s" and "length (elems t) = b * prod_list s"
  shows "unstack0 t =
         map (\<lambda>i. \<lparr>shape = s,
                    elems = map (\<lambda>j. elems t ! (i * prod_list s + j)) [0..<prod_list s]\<rparr>)
             [0..<b]"
proof -
  have "take (prod_list s) (drop (i * prod_list s) (elems t)) =
        map (\<lambda>j. elems t ! (i * prod_list s + j)) [0..<prod_list s]" if "i < b" for i
  proof (rule take_drop_block)
    have "Suc i * prod_list s \<le> b * prod_list s"
      using that by (intro mult_le_mono1) simp
    then show "i * prod_list s + prod_list s \<le> length (elems t)"
      using assms(2) by (simp add: add.commute)
  qed
  then show ?thesis
    using assms(1) by (simp add: unstack0_def)
qed

lemma map2_upt:
  "length ys = n \<Longrightarrow> map2 f (map h [0..<n]) ys = map (\<lambda>i. f (h i) (ys ! i)) [0..<n]"
  by (rule nth_equalityI) simp_all

lemma block_index:
  assumes "j < (m::nat)"
  shows "(i * m + j) div m = i"
  using assms by simp

lemma add_per_sample_elems:
  assumes sh: "shape t = b # s" and len: "length (elems t) = b * prod_list s"
    and ks: "length ks = b"
  shows "elems (add_per_sample t ks) =
         map (\<lambda>i. elems t ! i + ks ! (i div prod_list s)) [0..<b * prod_list s]"
proof -
  define M where "M = prod_list s"
  have "concat (map2 (\<lambda>u k. map (\<lambda>x. x + k) (elems u)) (unstack0 t) ks) =
        concat (map (\<lambda>i. map (\<lambda>j. (\<lambda>n. elems t ! n + ks ! (n div M)) (i * M + j)) [0..<M])
                    [0..<b])"
    unfolding unstack0_eq[OF sh len] map2_upt[OF ks] M_def[symmetric]
    by (rule arg_cong[where f = concat], rule map_cong, rule refl)
       (simp add: block_index)
  also have "\<dots> = map (\<lambda>n. elems t ! n + ks ! (n div M)) [0..<b * M]"
    by (rule concat_rows)
  finally show ?thesis by (simp add: add_per_sample_def M_def)
qed

lemma shape_add_per_sample: "shape (add_per_sample t ks) = shape t"
  by (simp add: add_per_sample_def)

lemma vectorized_augment_image3_eq:
  assumes wf: "wf_tensor t" and sh: "shape t = b # s" and s: "s \<noteq> []"
    and c: "0 < last s" and ts: "those ts = Some ks" and ks: "length ks = b"
  shows "vectorized_augment_image3 t ts =
         Inr \<lparr>shape = shape t,
              elems = tint (last s) (\<lambda>j. ks ! (j div prod_list s)) (elems t)\<rparr>"
proof -
  define C where "C = last s"
  define Mb where "Mb = prod_list (butlast s)"
  have ne: "shape t \<noteq> []" and lastC: "last (shape t) = C"
    and bl: "butlast (shape t) = b # butlast s"
    using sh s by (simp_all add: C_def)
  have c': "0 < last (shape t)" using c lastC by (simp add: C_def)
  have M: "prod_list s = Mb * C"
    using prod_list_butlast[OF s] by (simp add: Mb_def C_def)
  obtain planes where us: "unstack_last t = Inr planes"
    and up: "unpack_last planes = Inr (butlast planes, last planes)"
    and lp: "last planes = \<lparr>shape = b # butlast s,
                           elems = map (\<lambda>i. elems t ! (i * C + (C - 1))) [0..<b * Mb]\<rparr>"
    using unstack_last_planes[OF ne c'] unfolding lastC bl by (auto simp: Mb_def)
  define blue where "blue = last planes"
  define b' where "b' = clip_by_value (add_per_sample blue ks) 0 255"
  have sb: "shape b' = butlast (shape t)"
    by (simp add: b'_def clip_by_value_def shape_add_per_sample blue_def lp bl)
  have len: "length (elems t) = b * Mb * C"
    using wf by (simp add: wf_tensor_def sh M)
  have eblue: "elems (add_per_sample blue ks) =
               map (\<lambda>i. elems blue ! i + ks ! (i div Mb)) [0..<b * Mb]"
    unfolding Mb_def by (rule add_per_sample_elems) (simp_all add: blue_def lp ks Mb_def)
  have eb: "elems b' ! (j div C) = max (min (elems t ! j + ks ! (j div prod_list s)) 255) 0"
    if "j < length (elems t)" "j mod C = C - 1" for j
  proof -
    have lt: "j div C < b * Mb" using that(1) len c
      by (simp add: C_def less_mult_imp_div_less)
    have "j div C div Mb = j div prod_list s"
      by (simp add: M div_mult2_eq mult.commute)
    moreover have "elems blue ! (j div C) = elems t ! j"
      using lt last_plane_index[of C j] that(2) c by (simp add: blue_def lp C_def)
    ultimately show ?thesis
      using lt by (simp add: b'_def clip_by_value_def eblue)
  qed
  have "stack_last (butlast planes @ [b']) =
        Inr \<lparr>shape = shape t,
             elems = map (\<lambda>j. if j mod C = C - 1 then elems b' ! (j div C) else elems t ! j)
                         [0..<length (elems t)]\<rparr>"
    unfolding lastC[symmetric] by (rule stack_replace_last[OF wf ne c' us sb])
  also have "map (\<lambda>j. if j mod C = C - 1 then elems b' ! (j div C) else elems t ! j)
                 [0..<length (elems t)] = tint C (\<lambda>j. ks ! (j div prod_list s)) (elems t)"
    unfolding tint_def by (rule map_cong) (auto simp: eb)
  finally show ?thesis
    by (simp add: vectorized_augment_image3_def us up ts b'_def blue_def C_def)
qed

section \<open>The manual loop and the fast path\<close>

lemma length_draw_n: "draw_n f n g = (xs, g') \<Longrightarrow> length xs = n"
  by (induction n arbitrary: g xs) (auto split: prod.splits)

lemma draw_n_transformation3:
  "draw_n (draw s) n g = (fs, g') \<Longrightarrow>
   draw_n (get_random_transformation3 s) n g = (map (\<lambda>f. Some (f * 255)) fs, g')"
  by (induction n arbitrary: g fs)
     (auto simp: get_random_transformation3_def split: prod.splits)

lemma those_map_Some: "those (map Some ks) = Some ks"
  by (induction ks) simp_all

lemma image_loop_pure:
  assumes "draw_n (get_random_transformation L) (length xs) g = (ts, g')"
    and "\<And>x t g. x \<in> set xs \<Longrightarrow> t \<in> set ts \<Longrightarrow> augment_image L x t g = (Inr (F x t), g)"
  shows "image_loop L xs g = (Inr (ts, map2 F xs ts), g')"
  using assms
proof (induction xs arbitrary: g ts)
  case Nil
  then show ?case by simp
next
  case (Cons x xs)
  obtain t g1 where t: "get_random_transformation L g = (t, g1)" by (cases "get_random_transformation L g")
  obtain ts' g2 where ts': "draw_n (get_random_transformation L) (length xs) g1 = (ts', g2)"
    by (cases "draw_n (get_random_transformation L) (length xs) g1")
  have ts: "ts = t # ts'" and g': "g' = g2"
    using Cons.prems(1) t ts' by simp_all
  have step: "augment_image L x t g1 = (Inr (F x t), g1)"
    using Cons.prems(2)[of x t g1] ts by simp
  have "image_loop L xs g1 = (Inr (ts', map2 F xs ts'), g2)"
    using Cons.IH[OF ts'[unfolded g'[symmetric]]] Cons.prems(2) ts g' by simp
  then show ?case
    using t step ts g' by simp
qed

lemma stack0_same:
  assumes "ts \<noteq> []" and "\<And>u. u \<in> set ts \<Longrightarrow> shape u = s"
  shows "stack0 ts = Inr \<lparr>shape = length ts # s, elems = concat (map elems ts)\<rparr>"
proof (cases ts)
  case Nil
  then show ?thesis using assms(1) by simp
next
  case (Cons t ts')
  then have "shape t = s" using assms(2) by simp
  moreover have "list_all (\<lambda>u. shape u = s) ts" using assms(2) by (simp add: list_all_iff)
  ultimately show ?thesis using Cons by (simp add: stack0_def)
qed

lemma block_mod:
  assumes "m = n * (c::nat)"
  shows "(i * m + j) mod c = j mod c"
  using assms by (simp add: mult.assoc[symmetric])

lemma tint_block:
  assumes m: "m = n * c" and i: "i < b" and len: "length xs = b * m"
  shows "tint c (\<lambda>j. k i) (map (\<lambda>j. xs ! (i * m + j)) [0..<m]) =
         map (\<lambda>j. tint c (\<lambda>J. k (J div m)) xs ! (i * m + j)) [0..<m]"
proof (rule nth_equalityI)
  show "length (tint c (\<lambda>j. k i) (map (\<lambda>j. xs ! (i * m + j)) [0..<m])) =
        length (map (\<lambda>j. tint c (\<lambda>J. k (J div m)) xs ! (i * m + j)) [0..<m])"
    by (simp add: length_tint)
next
  fix j assume "j < length (tint c (\<lambda>j. k i) (map (\<lambda>j. xs ! (i * m + j)) [0..<m]))"
  then have j: "j < m" by (simp add: length_tint)
  have "Suc i * m \<le> b * m" using i by (intro mult_le_mono1) simp
  then have lt: "i * m + j < length xs" using j len by simp
  show "tint c (\<lambda>j. k i) (map (\<lambda>j. xs ! (i * m + j)) [0..<m]) ! j =
        map (\<lambda>j. tint c (\<lambda>J. k (J div m)) xs ! (i * m + j)) [0..<m] ! j"
    using j lt by (simp add: tint_nth block_mod[OF m] block_index)
qed

lemma loop_images3:
  assumes wf: "wf_tensor t" and sh: "shape t = b # s" and s: "s \<noteq> []"
    and ks: "length ks = b" and b: "0 < b"
  shows "stack0 (map2 (\<lambda>x k. \<lparr>shape = shape x, elems = tint (last s) (\<lambda>j. k) (elems x)\<rparr>)
                        (unstack0 t) ks) =
         Inr \<lparr>shape = shape t,
              elems = tint (last s) (\<lambda>j. ks ! (j div prod_list s)) (elems t)\<rparr>"
proof -
  define M where "M = prod_list s"
  define C where "C = last s"
  have M: "M = prod_list (butlast s) * C"
    using prod_list_butlast[OF s] by (simp add: M_def C_def)
  have len: "length (elems t) = b * M"
    using wf by (simp add: wf_tensor_def sh M_def)
  define G where "G = (\<lambda>J. tint C (\<lambda>J. ks ! (J div M)) (elems t) ! J)"
  define R where "R = (\<lambda>i. \<lparr>shape = s, elems = map (\<lambda>j. G (i * M + j)) [0..<M]\<rparr>)"
  have rs: "map2 (\<lambda>x k. \<lparr>shape = shape x, elems = tint C (\<lambda>j. k) (elems x)\<rparr>) (unstack0 t) ks =
            map R [0..<b]"
    unfolding unstack0_eq[OF sh len[unfolded M_def]] map2_upt[OF ks] M_def[symmetric]
    by (rule map_cong, rule refl)
       (simp add: R_def G_def tint_block[OF M _ len, where k = "\<lambda>i. ks ! i"])
  have "stack0 (map R [0..<b]) =
        Inr \<lparr>shape = length (map R [0..<b]) # s, elems = concat (map elems (map R [0..<b]))\<rparr>"
    by (rule stack0_same) (use b in \<open>auto simp: R_def\<close>)
  moreover have "concat (map elems (map R [0..<b])) = map G [0..<b * M]"
    using concat_rows[of G M b] by (simp add: R_def o_def)
  moreover have "map G [0..<b * M] = tint C (\<lambda>j. ks ! (j div M)) (elems t)"
    unfolding G_def len[symmetric] length_tint[of C "\<lambda>j. ks ! (j div M)" "elems t", symmetric]
    by (rule map_nth)
  ultimately show ?thesis
    unfolding rs C_def[symmetric] M_def[symmetric] by (simp add: sh)
qed

lemma unstack0_slices:
  assumes "wf_tensor t" and "shape t = b # s" and "x \<in> set (unstack0 t)"
  shows "wf_tensor x \<and> shape x = s"
proof -
  have "length (elems t) = b * prod_list s"
    using assms(1,2) by (simp add: wf_tensor_def)
  from unstack0_eq[OF assms(2) this] assms(3) show ?thesis
    by (auto simp: wf_tensor_def)
qed

lemma length_unstack0: "shape t = b # s \<Longrightarrow> length (unstack0 t) = b"
  by (simp add: unstack0_def)

lemma map2_map_right: "map2 F xs (map h ys) = map2 (\<lambda>x y. F x (h y)) xs ys"
  by (simp add: zip_map2 case_prod_unfold)

section \<open>Slices of a batch\<close>

lemma length_concat_block:
  "(\<And>xs. xs \<in> set xss \<Longrightarrow> length xs = m) \<Longrightarrow> length (concat xss) = length xss * m"
  by (induction xss) simp_all

lemma concat_nth_block:
  assumes "\<And>xs. xs \<in> set xss \<Longrightarrow> length xs = m" and "i < length xss" and "j < m"
  shows "concat xss ! (i * m + j) = xss ! i ! j"
  using assms
proof (induction xss arbitrary: i)
  case Nil
  then show ?case by simp
next
  case (Cons x xss)
  have lx: "length x = m" using Cons.prems(1) by simp
  show ?case
  proof (cases i)
    case 0
    then show ?thesis using lx Cons.prems(3) by (simp add: nth_append)
  next
    case (Suc i')
    have "concat xss ! (i' * m + j) = xss ! i' ! j"
      using Cons.IH[of i'] Cons.prems Suc by simp
    then show ?thesis using lx Suc by (simp add: nth_append)
  qed
qed

lemma stack0_Inr:
  assumes "stack0 ys = Inr v"
  shows "\<exists>s'. (\<forall>y \<in> set ys. shape y = s') \<and>
              v = \<lparr>shape = length ys # s', elems = concat (map elems ys)\<rparr>"
  using assms by (auto simp: stack0_def list_all_iff split: list.splits if_splits)

lemma unstack0_stack0:
  assumes st: "stack0 ys = Inr v" and wf: "\<And>y. y \<in> set ys \<Longrightarrow> wf_tensor y"
  shows "unstack0 v = ys \<and> wf_tensor v \<and> shape v \<noteq> [] \<and> hd (shape v) = length ys"
proof -
  obtain s' where sh: "\<And>y. y \<in> set ys \<Longrightarrow> shape y = s'"
    and v: "v = \<lparr>shape = length ys # s', elems = concat (map elems ys)\<rparr>"
    using stack0_Inr[OF st] by blast
  define M where "M = prod_list s'"
  have lens: "length xs = M" if "xs \<in> set (map elems ys)" for xs
    using that wf sh by (auto simp: wf_tensor_def M_def)
  have len: "length (elems v) = length ys * M"
    using length_concat_block[of "map elems ys" M] lens by (simp add: v)
  have shv: "shape v = length ys # s'" by (simp add: v)
  have "unstack0 v = ys"
    unfolding unstack0_eq[OF shv len[unfolded M_def]]
  proof (rule nth_equalityI)
    show "length (map (\<lambda>i. \<lparr>shape = s',
              elems = map (\<lambda>j. elems v ! (i * prod_list s' + j)) [0..<prod_list s']\<rparr>)
            [0..<length ys]) = length ys" by simp
  next
    fix i assume "i < length (map (\<lambda>i. \<lparr>shape = s',
              elems = map (\<lambda>j. elems v ! (i * prod_list s' + j)) [0..<prod_list s']\<rparr>)
            [0..<length ys])"
    then have i: "i < length ys" by simp
    then have yi: "ys ! i \<in> set ys" by simp
    have li: "length (elems (ys ! i)) = M" using lens[of "elems (ys ! i)"] yi by simp
    have "map (\<lambda>j. elems v ! (i * M + j)) [0..<M] = map (\<lambda>j. elems (ys ! i) ! j) [0..<M]"
      by (rule map_cong, rule refl)
         (use i lens concat_nth_block[of "map elems ys" M i] in \<open>simp add: v\<close>)
    also have "\<dots> = elems (ys ! i)" using li map_nth[of "elems (ys ! i)"] by simp
    finally show "map (\<lambda>i. \<lparr>shape = s',
              elems = map (\<lambda>j. elems v ! (i * prod_list s' + j)) [0..<prod_list s']\<rparr>)
            [0..<length ys] ! i = ys ! i"
      using i sh[OF yi] by (simp add: M_def)
  qed
  moreover have "wf_tensor v" using len by (simp add: wf_tensor_def shv M_def)
  ultimately show ?thesis by (simp add: shv)
qed

lemma collect_Inr: "collect rs = Inr ys \<Longrightarrow> rs = map Inr ys"
proof (induction rs arbitrary: ys)
  case Nil
  then show ?case by simp
next
  case (Cons r rs)
  then show ?case by (cases r) (auto split: sum.splits)
qed

lemma collect_map_Inr: "collect (map Inr ys) = Inr ys"
  by (induction ys) simp_all



lemma batch_slices3:
  assumes wf: "wf_tensor t" and sh: "shape t = b # s" and s: "s \<noteq> []" and c: "0 < last s"
    and ks: "length ks = b" and i: "i < b"
  shows "augment_image3 (unstack0 t ! i) (Some (ks ! i)) =
         Inr (unstack0 \<lparr>shape = shape t,
                        elems = tint (last s) (\<lambda>j. ks ! (j div prod_list s)) (elems t)\<rparr> ! i)"
proof -
  define ys where
    "ys = map2 (\<lambda>x k. \<lparr>shape = shape x, elems = tint (last s) (\<lambda>j. k) (elems x)\<rparr>) (unstack0 t) ks"
  have st: "stack0 ys =
        Inr \<lparr>shape = shape t, elems = tint (last s) (\<lambda>j. ks ! (j div prod_list s)) (elems t)\<rparr>"
    unfolding ys_def by (rule loop_images3[OF wf sh s ks]) (use i in simp)
  have lx: "length (unstack0 t) = b" by (rule length_unstack0[OF sh])
  have wfy: "wf_tensor y" if yin: "y \<in> set ys" for y
  proof -
    obtain x k where "x \<in> set (unstack0 t)"
      and y: "y = \<lparr>shape = shape x, elems = tint (last s) (\<lambda>j. k) (elems x)\<rparr>"
      using yin unfolding ys_def by (auto dest: set_zip_leftD)
    then have "wf_tensor x" using unstack0_slices[OF wf sh] by blast
    then show ?thesis by (simp add: y wf_tensor_def length_tint)
  qed
  have u: "unstack0 \<lparr>shape = shape t,
             elems = tint (last s) (\<lambda>j. ks ! (j div prod_list s)) (elems t)\<rparr> = ys"
    using unstack0_stack0[OF st wfy] by simp
  have xi: "unstack0 t ! i \<in> set (unstack0 t)" using i lx by simp
  have x: "wf_tensor (unstack0 t ! i)" "shape (unstack0 t ! i) = s"
    using unstack0_slices[OF wf sh xi] by simp_all
  have "ys ! i = \<lparr>shape = s, elems = tint (last s) (\<lambda>j. ks ! i) (elems (unstack0 t ! i))\<rparr>"
    using i lx ks x by (simp add: ys_def)
  then show ?thesis
    unfolding u using augment_image3_eq[of "unstack0 t ! i" "ks ! i"] x s c by simp
qed

lemma augment_image1_eq3: "augment_image1 img t = augment_image3 img (Some 100)"
  by (simp add: augment_image1_def augment_image3_def split: sum.splits prod.splits)



section \<open>The methods and their values\<close>

lemma read_new:
  "map (\<lambda>r. (st @ planes @ rest) ! r) [length st..<length st + length planes] = planes"
  by (rule nth_equalityI) (simp_all add: nth_append)

lemma read_butlast:
  "map (\<lambda>r. (st @ planes @ rest) ! r) (butlast [length st..<length st + length planes]) =
   butlast planes"
proof -
  have "map (\<lambda>r. (st @ planes @ rest) ! r) (butlast [length st..<length st + length planes]) =
        butlast (map (\<lambda>r. (st @ planes @ rest) ! r) [length st..<length st + length planes])"
    by (simp add: map_butlast)
  then show ?thesis by (simp only: read_new)
qed

lemma read_last:
  "planes \<noteq> [] \<Longrightarrow>
   (st @ planes @ rest) ! last [length st..<length st + length planes] = last planes"
  by (cases planes rule: rev_cases) (simp_all add: nth_append)

lemma tf_unstack_eq:
  assumes "unstack_last (store w ! a) = Inr planes"
  shows "tf_unstack a w =
         (Inr [length (store w)..<length (store w) + length planes],
          w\<lparr>store := store w @ planes\<rparr>)"
  using assms by (simp add: tf_unstack_def)

text \<open>The last three statements of the methods, after the planes were unstacked.\<close>

lemma shift_steps:
  assumes st: "store w = st @ planes" and ne: "planes \<noteq> []"
    and refs: "refs = [length st..<length st + length planes]"
    and x: "x = add_scalar (last planes) k" and y: "y = clip_by_value x 0 255"
  shows "bind_call (tf_add (last refs) (Some k)) (\<lambda>shifted.
         bind_call (tf_clip_by_value shifted 0 255) (\<lambda>blue'.
         tf_stack (butlast refs @ [blue']))) w =
         (case stack_last (butlast planes @ [y]) of
            Inl e \<Rightarrow> (Inl e, w\<lparr>store := store w @ [x, y]\<rparr>)
          | Inr out \<Rightarrow> (Inr (length (store w) + 2), w\<lparr>store := store w @ [x, y, out]\<rparr>))"
proof -
  define w2 where "w2 = w\<lparr>store := store w @ [x]\<rparr>"
  define w3 where "w3 = w\<lparr>store := store w @ [x, y]\<rparr>"
  have rl: "store w ! last refs = last planes"
    using read_last[OF ne, of st "[]"] by (simp add: st refs)
  have s3: "tf_add (last refs) (Some k) w = (Inr (length (store w)), w2)"
    by (simp add: tf_add_def new_tensor_def rl x w2_def)
  have s4: "tf_clip_by_value (length (store w)) 0 255 w2 = (Inr (length (store w) + 1), w3)"
    by (simp add: tf_clip_by_value_def new_tensor_def w2_def w3_def y)
  have rd: "map (\<lambda>r. store w3 ! r) (butlast refs) = butlast planes"
    using read_butlast[of st planes "[x, y]"] by (simp add: w3_def st refs)
  have ry: "store w3 ! (length (store w) + 1) = y"
    by (simp add: w3_def nth_append)
  have s5: "tf_stack (butlast refs @ [length (store w) + 1]) w3 =
         (case stack_last (butlast planes @ [y]) of
            Inl e \<Rightarrow> (Inl e, w3)
          | Inr out \<Rightarrow> (Inr (length (store w) + 2), w\<lparr>store := store w @ [x, y, out]\<rparr>))"
    unfolding tf_stack_def map_append rd list.map ry
    by (simp add: new_tensor_def w3_def split: sum.splits)
  show ?thesis
    unfolding bind_call_def s3 prod.case sum.case s4 s5
    by (simp add: w3_def split: sum.splits)
qed

lemma augment_image3_call_eq:
  "\<exists>extra. augment_image3_call a t w =
     (case augment_image3 (store w ! a) t of
        Inl e \<Rightarrow> Inl e
      | Inr out \<Rightarrow> Inr (length (store w) + length extra - 1),
      w\<lparr>store := store w @ extra\<rparr>) \<and>
     (case augment_image3 (store w ! a) t of
        Inl e \<Rightarrow> True
      | Inr out \<Rightarrow> extra \<noteq> [] \<and> last extra = out)"
proof (cases "unstack_last (store w ! a)")
  case (Inl e)
  then show ?thesis
    by (intro exI[of _ "[]"])
       (simp add: augment_image3_call_def augment_image3_def bind_call_def tf_unstack_def)
next
  case (Inr planes)
  note s1 = tf_unstack_eq[OF Inr]
  show ?thesis
  proof (cases "planes = []")
    case True
    then show ?thesis using Inr
      by (intro exI[of _ "[]"])
         (simp add: augment_image3_call_def augment_image3_def bind_call_def s1
            unpack_def unpack_last_def)
  next
    case ne: False
    define refs where "refs = [length (store w)..<length (store w) + length planes]"
    define w1 where "w1 = w\<lparr>store := store w @ planes\<rparr>"
    have s2: "unpack refs w1 = (Inr (butlast refs, last refs), w1)"
      using ne by (simp add: unpack_def unpack_last_def refs_def)
    have body: "augment_image3_call a t w =
       bind_call (tf_add (last refs) t) (\<lambda>shifted.
         bind_call (tf_clip_by_value shifted 0 255) (\<lambda>blue'.
         tf_stack (butlast refs @ [blue']))) w1"
      unfolding augment_image3_call_def
      by (subst bind_call_def, simp only: s1 prod.case sum.case refs_def[symmetric] w1_def[symmetric])
         (subst bind_call_def, simp only: s2 prod.case sum.case)
    have pure: "augment_image3 (store w ! a) t =
       (case t of None \<Rightarrow> Inl ValueError
        | Some k \<Rightarrow> stack_last (butlast planes @ [clip_by_value (add_scalar (last planes) k) 0 255]))"
      using Inr ne by (simp add: augment_image3_def unpack_last_def)
    show ?thesis
    proof (cases t)
      case None
      then show ?thesis unfolding body[unfolded None] pure[unfolded None option.case] None
        by (intro exI[of _ planes]) (simp add: bind_call_def tf_add_def w1_def)
    next
      case (Some k)
      define x where "x = add_scalar (last planes) k"
      define y where "y = clip_by_value x 0 255"
      have st: "store w1 = store w @ planes" by (simp add: w1_def)
      note sh = shift_steps[OF st ne refs_def x_def y_def]
      note body' = body[unfolded Some sh]
      note pure' = pure[unfolded Some option.case, folded x_def, folded y_def]
      show ?thesis
      proof (cases "stack_last (butlast planes @ [y])")
        case (Inl e)
        then show ?thesis unfolding Some body' pure'
          by (intro exI[of _ "planes @ [x, y]"]) (simp add: w1_def)
      next
        case res: (Inr out)
        then show ?thesis unfolding Some body' pure'
          by (intro exI[of _ "planes @ [x, y, out]"]) (simp add: w1_def)
      qed
    qed
  qed
qed


lemma augment_image1_call_eq3: "augment_image1_call a t = augment_image3_call a (Some 100)"
  by (simp add: augment_image1_call_def augment_image3_call_def)

lemma augment_image2_call_eq:
  "\<exists>extra. augment_image2_call s a t w =
     (case fst (augment_image2 s (store w ! a) t (source w)) of
        Inl e \<Rightarrow> Inl e
      | Inr out \<Rightarrow> Inr (length (store w) + length extra - 1),
      w\<lparr>source := snd (augment_image2 s (store w ! a) t (source w)),
        store := store w @ extra\<rparr>) \<and>
     (case fst (augment_image2 s (store w ! a) t (source w)) of
        Inl e \<Rightarrow> True
      | Inr out \<Rightarrow> extra \<noteq> [] \<and> last extra = out)"
proof (cases "unstack_last (store w ! a)")
  case (Inl e)
  then show ?thesis
    by (intro exI[of _ "[]"])
       (simp add: augment_image2_call_def augment_image2_def bind_call_def tf_unstack_def)
next
  case (Inr planes)
  note s1 = tf_unstack_eq[OF Inr]
  show ?thesis
  proof (cases "planes = []")
    case True
    then show ?thesis using Inr
      by (intro exI[of _ "[]"])
         (simp add: augment_image2_call_def augment_image2_def bind_call_def s1
            unpack_def unpack_last_def)
  next
    case ne: False
    obtain f g' where dr: "draw s (source w) = (f, g')" by (cases "draw s (source w)")
    define refs where "refs = [length (store w)..<length (store w) + length planes]"
    define w1 where "w1 = w\<lparr>store := store w @ planes\<rparr>"
    define w1' where "w1' = w\<lparr>source := g', store := store w @ planes\<rparr>"
    define x where "x = add_scalar (last planes) (f * 255)"
    define y where "y = clip_by_value x 0 255"
    have s2: "unpack refs w1 = (Inr (butlast refs, last refs), w1)"
      using ne by (simp add: unpack_def unpack_last_def refs_def)
    have s3: "factor_call s w1 = (Inr f, w1')"
      by (simp add: factor_call_def w1_def w1'_def dr)
    have body: "augment_image2_call s a t w =
       bind_call (tf_add (last refs) (Some (f * 255))) (\<lambda>shifted.
         bind_call (tf_clip_by_value shifted 0 255) (\<lambda>blue'.
         tf_stack (butlast refs @ [blue']))) w1'"
      unfolding augment_image2_call_def
      by (subst bind_call_def, simp only: s1 prod.case sum.case refs_def[symmetric] w1_def[symmetric])
         (subst bind_call_def, simp only: s2 prod.case sum.case,
          subst bind_call_def, simp only: s3 prod.case sum.case Let_def)
    have pure: "augment_image2 s (store w ! a) t (source w) =
       (stack_last (butlast planes @ [y]), g')"
      using Inr ne by (simp add: augment_image2_def unpack_last_def dr x_def y_def)
    have st: "store w1' = store w @ planes" by (simp add: w1'_def)
    note body' = body[unfolded shift_steps[OF st ne refs_def x_def y_def]]
    show ?thesis
    proof (cases "stack_last (butlast planes @ [y])")
      case (Inl e)
      then show ?thesis unfolding body' pure
        by (intro exI[of _ "planes @ [x, y]"]) (simp add: w1'_def)
    next
      case res: (Inr out)
      then show ?thesis unfolding body' pure
        by (intro exI[of _ "planes @ [x, y, out]"]) (simp add: w1'_def)
    qed
  qed
qed

lemma bind_call_assoc:
  "bind_call (bind_call m f) h = bind_call m (\<lambda>x. bind_call (f x) h)"
  by (rule ext) (simp add: bind_call_def split: prod.splits sum.splits)

lemma augment_image4_call_steps:
  "augment_image4_call r a t =
   bind_call (tf_transform_value_range a r (0, 255)) (\<lambda>img'.
   bind_call (augment_image3_call img' t) (\<lambda>result.
   tf_transform_value_range result (0, 255) r))"
  by (simp add: augment_image4_call_def augment_image3_call_def bind_call_assoc split_def)

lemma augment_image4_steps:
  "augment_image4 r img t =
   (case transform_value_range img r (0, 255) of
      Inl e \<Rightarrow> Inl e
    | Inr img' \<Rightarrow>
        (case augment_image3 img' t of
           Inl e \<Rightarrow> Inl e
         | Inr result \<Rightarrow> transform_value_range result (0, 255) r))"
  by (simp add: augment_image4_def augment_image3_def split: sum.splits prod.splits option.splits)

lemma augment_image4_call_eq:
  "\<exists>extra. augment_image4_call r a t w =
     (case augment_image4 r (store w ! a) t of
        Inl e \<Rightarrow> Inl e
      | Inr out \<Rightarrow> Inr (length (store w) + length extra - 1),
      w\<lparr>store := store w @ extra\<rparr>) \<and>
     (case augment_image4 r (store w ! a) t of
        Inl e \<Rightarrow> True
      | Inr out \<Rightarrow> extra \<noteq> [] \<and> last extra = out)"
proof (cases "transform_value_range (store w ! a) r (0, 255)")
  case (Inl e)
  then show ?thesis
    by (intro exI[of _ "[]"])
       (simp add: augment_image4_call_steps augment_image4_steps bind_call_def
          tf_transform_value_range_def)
next
  case (Inr img')
  define w0 where "w0 = w\<lparr>store := store w @ [img']\<rparr>"
  have s0: "tf_transform_value_range a r (0, 255) w = (Inr (length (store w)), w0)"
    by (simp add: tf_transform_value_range_def Inr new_tensor_def w0_def)
  have rd: "store w0 ! length (store w) = img'" by (simp add: w0_def)
  obtain extra where e: "augment_image3_call (length (store w)) t w0 =
     (case augment_image3 img' t of
        Inl e \<Rightarrow> Inl e
      | Inr out \<Rightarrow> Inr (length (store w0) + length extra - 1),
      w0\<lparr>store := store w0 @ extra\<rparr>)"
    and l: "case augment_image3 img' t of
        Inl e \<Rightarrow> True
      | Inr out \<Rightarrow> extra \<noteq> [] \<and> last extra = out"
    using augment_image3_call_eq[of "length (store w)" t w0] unfolding rd by blast
  have body: "augment_image4_call r a t w =
      bind_call (augment_image3_call (length (store w)) t) (\<lambda>result.
         tf_transform_value_range result (0, 255) r) w0"
    unfolding augment_image4_call_steps by (subst bind_call_def) (simp only: s0 prod.case sum.case)
  show ?thesis
  proof (cases "augment_image3 img' t")
    case (Inl e')
    note e' = e[unfolded Inl sum.case]
    have "augment_image4_call r a t w = (Inl e', w0\<lparr>store := store w0 @ extra\<rparr>)"
      unfolding body by (subst bind_call_def) (simp only: e' sum.case prod.case)
    then show ?thesis unfolding augment_image4_steps Inr Inl sum.case
      by (intro exI[of _ "img' # extra"]) (simp add: w0_def)
  next
    case res: (Inr out)
    have ne: "extra \<noteq> []" and la: "last extra = out" using l res by simp_all
    define w' where "w' = w0\<lparr>store := store w0 @ extra\<rparr>"
    have rr: "store w' ! (length (store w0) + length extra - 1) = out"
      using ne la by (cases extra rule: rev_cases) (simp_all add: w'_def nth_append)
    have step: "augment_image4_call r a t w =
       (case transform_value_range out (0, 255) r of
          Inl e \<Rightarrow> (Inl e, w')
        | Inr v \<Rightarrow> new_tensor v w')"
      unfolding body
      by (subst bind_call_def)
         (simp only: e res sum.case prod.case tf_transform_value_range_def
            w'_def[symmetric] rr)
    show ?thesis
    proof (cases "transform_value_range out (0, 255) r")
      case (Inl e')
      then show ?thesis unfolding step augment_image4_steps Inr res sum.case
        by (intro exI[of _ "img' # extra"]) (simp add: w'_def w0_def)
    next
      case fin: (Inr v)
      then show ?thesis unfolding step augment_image4_steps Inr res sum.case
        by (intro exI[of _ "img' # extra @ [v]"]) (simp add: w'_def w0_def new_tensor_def)
    qed
  qed
qed

lemma call_method_eq:
  assumes w: "w = \<lparr>source = g, store = [img]\<rparr>"
    and m: "m 0 t w =
             (case R of Inl e \<Rightarrow> Inl e | Inr out \<Rightarrow> Inr (length (store w) + length extra - 1),
              w')"
    and w': "store w' = store w @ extra" "source w' = g'"
    and l: "case R of Inl e \<Rightarrow> True | Inr out \<Rightarrow> extra \<noteq> [] \<and> last extra = out"
  shows "call_method m img t g = (R, g')"
proof (cases R)
  case (Inl e)
  then show ?thesis using m w' unfolding w by (simp add: call_method_def)
next
  case (Inr out)
  then have "extra \<noteq> []" "last extra = out" using l by simp_all
  then have "(img # extra) ! length extra = out"
    by (cases extra rule: rev_cases) (simp_all add: nth_append)
  then show ?thesis using m w' Inr unfolding w by (simp add: call_method_def)
qed

lemma call_method3: "call_method augment_image3_call = (\<lambda>img t g. (augment_image3 img t, g))"
proof (intro ext)
  fix img t g
  define w where "w = \<lparr>source = g, store = [img]\<rparr>"
  have r: "store w ! 0 = img" by (simp add: w_def)
  from augment_image3_call_eq[of 0 t w, unfolded r]
  obtain extra where
    m: "augment_image3_call 0 t w =
     (case augment_image3 img t of
        Inl e \<Rightarrow> Inl e
      | Inr out \<Rightarrow> Inr (length (store w) + length extra - 1),
      w\<lparr>store := store w @ extra\<rparr>)"
    and l: "case augment_image3 img t of
              Inl e \<Rightarrow> True | Inr out \<Rightarrow> extra \<noteq> [] \<and> last extra = out"
    by blast
  show "call_method augment_image3_call img t g = (augment_image3 img t, g)"
    by (rule call_method_eq[where m = augment_image3_call and R = "augment_image3 img t"
          and extra = extra, OF w_def m _ _ l]) (simp_all add: w_def)
qed

lemma call_method1: "call_method augment_image1_call = (\<lambda>img t g. (augment_image1 img t, g))"
proof (intro ext)
  fix img t g
  have "call_method augment_image1_call img t g = call_method augment_image3_call img (Some 100) g"
    by (simp add: call_method_def augment_image1_call_eq3)
  then show "call_method augment_image1_call img t g = (augment_image1 img t, g)"
    by (simp add: call_method3 augment_image1_eq3)
qed

lemma call_method4:
  "call_method (augment_image4_call r) = (\<lambda>img t g. (augment_image4 r img t, g))"
proof (intro ext)
  fix img t g
  define w where "w = \<lparr>source = g, store = [img]\<rparr>"
  have r: "store w ! 0 = img" by (simp add: w_def)
  from augment_image4_call_eq[of r 0 t w, unfolded r]
  obtain extra where
    m: "augment_image4_call r 0 t w =
     (case augment_image4 r img t of
        Inl e \<Rightarrow> Inl e
      | Inr out \<Rightarrow> Inr (length (store w) + length extra - 1),
      w\<lparr>store := store w @ extra\<rparr>)"
    and l: "case augment_image4 r img t of
              Inl e \<Rightarrow> True | Inr out \<Rightarrow> extra \<noteq> [] \<and> last extra = out"
    by blast
  show "call_method (augment_image4_call r) img t g = (augment_image4 r img t, g)"
    by (rule call_method_eq[where m = "augment_image4_call r" and R = "augment_image4 r img t"
          and extra = extra, OF w_def m _ _ l]) (simp_all add: w_def)
qed

lemma call_method2: "call_method (augment_image2_call s) = augment_image2 s"
proof (intro ext)
  fix img t g
  define w where "w = \<lparr>source = g, store = [img]\<rparr>"
  have r: "store w ! 0 = img" "source w = g" by (simp_all add: w_def)
  from augment_image2_call_eq[of s 0 t w, unfolded r]
  obtain extra where
    m: "augment_image2_call s 0 t w =
     (case fst (augment_image2 s img t g) of
        Inl e \<Rightarrow> Inl e
      | Inr out \<Rightarrow> Inr (length (store w) + length extra - 1),
      w\<lparr>source := snd (augment_image2 s img t g), store := store w @ extra\<rparr>)"
    and l: "case fst (augment_image2 s img t g) of
       Inl e \<Rightarrow> True | Inr out \<Rightarrow> extra \<noteq> [] \<and> last extra = out"
    by blast
  have "call_method (augment_image2_call s) img t g =
             (fst (augment_image2 s img t g), snd (augment_image2 s img t g))"
    by (rule call_method_eq[where m = "augment_image2_call s"
          and R = "fst (augment_image2 s img t g)" and extra = extra, OF w_def m _ _ l])
       simp_all
  then show "call_method (augment_image2_call s) img t g = augment_image2 s img t g" by simp
qed

section \<open>The dispatcher on the layers of the guide\<close>

lemma rank4_shape:
  assumes "length (shape t) = 4"
  shows "\<exists>b s. shape t = b # s \<and> s \<noteq> [] \<and> last s = last (shape t) \<and> hd (shape t) = b"
proof -
  obtain b s where "shape t = b # s" using assms by (cases "shape t") auto
  then show ?thesis using assms by (cases s) auto
qed

lemma rank3_shape: "length (shape t) = 3 \<Longrightarrow> shape t \<noteq> []"
  by auto

lemma unvectorizable_fields:
  "get_random_transformation (UnVectorizable L) = get_random_transformation L"
  "augment_image (UnVectorizable L) = augment_image L"
  "augment_label (UnVectorizable L) = augment_label L"
  "augment_bounding_boxes (UnVectorizable L) = augment_bounding_boxes L"
  "vectorized_augment (UnVectorizable L) = vectorized_augment L"
  "auto_vectorize (UnVectorizable L) = False"
  by (simp_all add: UnVectorizable_def)





lemma layer1_fields:
  "get_random_transformation RandomBlueTint1 = (\<lambda>g. (None, g))"
  "augment_image RandomBlueTint1 = (\<lambda>img t g. (augment_image1 img t, g))"
  "augment_label RandomBlueTint1 = (\<lambda>label t. Inr label)"
  "augment_bounding_boxes RandomBlueTint1 = (\<lambda>boxes t. Inr boxes)"
  "vectorized_augment RandomBlueTint1 = Some vectorized_augment1"
  "auto_vectorize RandomBlueTint1 = True"
  by (simp_all add: RandomBlueTint1_def BaseImageAugmentationLayer_def call_method1)

lemma layer3_fields:
  assumes "RandomBlueTint3 factor = Inr L"
  shows "\<exists>s. parse_factor factor = Inr s \<and>
             get_random_transformation L = get_random_transformation3 s \<and>
             augment_image L = (\<lambda>img t g. (augment_image3 img t, g)) \<and>
             augment_label L = augment_label3 \<and>
             augment_bounding_boxes L = augment_bounding_boxes3 \<and>
             vectorized_augment L = Some vectorized_augment3 \<and>
             auto_vectorize L = True"
  using assms
  by (auto simp: RandomBlueTint3_def BaseImageAugmentationLayer_def call_method3
      split: sum.splits)

lemma layer3_unvectorizable_fields:
  assumes "RandomBlueTint3 factor = Inr L" and "L' = L \<or> L' = UnVectorizable L"
  shows "\<exists>s. parse_factor factor = Inr s \<and>
             get_random_transformation L = get_random_transformation3 s \<and>
             get_random_transformation L' = get_random_transformation3 s \<and>
             augment_image L' = (\<lambda>img t g. (augment_image3 img t, g)) \<and>
             augment_label L' = augment_label3 \<and>
             augment_bounding_boxes L' = augment_bounding_boxes3 \<and>
             vectorized_augment L' = Some vectorized_augment3"
  using layer3_fields[OF assms(1)] assms(2) by (auto simp: unvectorizable_fields)


section \<open>The sequence of draws\<close>

lemma source_after_Suc: "source_after f (Suc n) g = source_after f n (snd (f g))"
  unfolding source_after_def by (simp only: funpow_Suc_right o_def)

lemma nth_draw_Suc: "nth_draw f (Suc i) g = nth_draw f i (snd (f g))"
  by (simp add: nth_draw_def source_after_Suc)

lemma nth_draw_0: "nth_draw f 0 g = fst (f g)"
  by (simp add: nth_draw_def source_after_def)

lemma draw_n_funpow:
  "draw_n f n g = (map (\<lambda>i. nth_draw f i g) [0..<n], source_after f n g)"
proof (induction n arbitrary: g)
  case 0
  then show ?case by (simp add: source_after_def)
next
  case (Suc n)
  have "map (\<lambda>i. nth_draw f i g) [0..<Suc n] =
        nth_draw f 0 g # map (\<lambda>i. nth_draw f (Suc i) g) [0..<n]"
    by (simp only: upt_conv_Cons[of 0 "Suc n"] zero_less_Suc if_True list.map
          map_Suc_upt[symmetric] map_map o_def)
  then show ?case
    by (simp add: Suc.IH case_prod_unfold Let_def nth_draw_Suc nth_draw_0 source_after_Suc
          del: upt_Suc)
qed



lemma image_loop_Inr:
  assumes pure: "\<And>x t h. augment_image L x t h = (F x t, h)"
    and loop: "image_loop L xs g = (Inr (ts, ys), g')"
  shows "g' = source_after (get_random_transformation L) (length xs) g \<and>
         length ts = length xs \<and> length ys = length xs \<and>
         (\<forall>i < length xs. ts ! i = nth_draw (get_random_transformation L) i g \<and>
                           F (xs ! i) (ts ! i) = Inr (ys ! i))"
  using loop
proof (induction xs arbitrary: g ts ys)
  case Nil
  then show ?case by (simp add: source_after_def)
next
  case (Cons x xs)
  obtain t g1 where t: "get_random_transformation L g = (t, g1)"
    by (cases "get_random_transformation L g")
  from Cons.prems t obtain y ts' ys' where y: "F x t = Inr y"
    and rest: "image_loop L xs g1 = (Inr (ts', ys'), g')"
    and ts: "ts = t # ts'" and ys: "ys = y # ys'"
    by (auto simp: pure split: sum.splits prod.splits)
  note ih = Cons.IH[OF rest]
  have g1: "g1 = snd (get_random_transformation L g)" using t by simp
  have t0: "t = nth_draw (get_random_transformation L) 0 g" using t by (simp add: nth_draw_0)
  show ?case
  proof (intro conjI allI impI)
    show "g' = source_after (get_random_transformation L) (length (x # xs)) g"
      using ih by (simp add: source_after_Suc g1)
    show "length ts = length (x # xs)" "length ys = length (x # xs)"
      using ih by (simp_all add: ts ys)
    fix i assume i: "i < length (x # xs)"
    show "ts ! i = nth_draw (get_random_transformation L) i g"
      using ih i t0 by (cases i) (simp_all add: ts nth_draw_Suc g1)
    show "F ((x # xs) ! i) (ts ! i) = Inr (ys ! i)"
      using ih i y by (cases i) (auto simp: ts ys)
  qed
qed

lemma batch_target_Some:
  assumes "batch_target f (Some v) ts = Inr r"
  shows "\<exists>rs v'. r = Some v' \<and> stack0 rs = Inr v' \<and> length rs = length ts \<and>
           (\<forall>i < length ts. f (unstack0 v ! i) (ts ! i) = Inr (rs ! i))"
proof -
  obtain rs v' where ne: "shape v \<noteq> []" and hd: "hd (shape v) = length ts"
    and co: "collect (map2 f (unstack0 v) ts) = Inr rs"
    and st: "stack0 rs = Inr v'" and r: "r = Some v'"
    using assms by (auto simp: batch_target_def split: if_splits sum.splits)
  have shv: "shape v = length ts # tl (shape v)" using ne hd by (cases "shape v") simp_all
  have lx: "length (unstack0 v) = length ts" by (rule length_unstack0[OF shv])
  have m: "map2 f (unstack0 v) ts = map Inr rs" by (rule collect_Inr[OF co])
  then have lrs: "length rs = length ts" using lx by (metis length_map length_zip min.idem)
  have fi: "f (unstack0 v ! i) (ts ! i) = Inr (rs ! i)" if "i < length ts" for i
  proof -
    have "map2 f (unstack0 v) ts ! i = f (unstack0 v ! i) (ts ! i)"
      using that lx by simp
    then show ?thesis using m that lrs by simp
  qed
  show ?thesis using r st lrs fi by blast
qed

section \<open>Targets that pass through\<close>

lemma stack0_unstack0:
  assumes wf: "wf_tensor v" and sh: "shape v = b # s" and b: "0 < b"
  shows "stack0 (unstack0 v) = Inr v"
proof -
  have len: "length (elems v) = b * prod_list s" using wf by (simp add: wf_tensor_def sh)
  define R where "R = (\<lambda>i. \<lparr>shape = s,
      elems = map (\<lambda>j. elems v ! (i * prod_list s + j)) [0..<prod_list s]\<rparr>)"
  have u: "unstack0 v = map R [0..<b]"
    unfolding R_def by (rule unstack0_eq[OF sh len])
  have "stack0 (map R [0..<b]) =
        Inr \<lparr>shape = length (map R [0..<b]) # s, elems = concat (map elems (map R [0..<b]))\<rparr>"
    by (rule stack0_same) (use b in \<open>auto simp: R_def\<close>)
  moreover have "concat (map elems (map R [0..<b])) = map (\<lambda>j. elems v ! j) [0..<b * prod_list s]"
    using concat_rows[of "\<lambda>j. elems v ! j" "prod_list s" b] by (simp add: R_def o_def)
  moreover have "map (\<lambda>j. elems v ! j) [0..<b * prod_list s] = elems v"
    unfolding len[symmetric] by (rule map_nth)
  ultimately show ?thesis unfolding u by (simp add: sh[symmetric])
qed

lemma map2_fst: "length xs = length ys \<Longrightarrow> map2 (\<lambda>x y. h x) xs ys = map h xs"
  by (induction xs ys rule: list_induct2) simp_all

lemma batch_target_id:
  assumes f: "\<And>x t. f x t = Inr x" and bf: "batch_field (length ts) x" and ts: "ts \<noteq> []"
  shows "batch_target f x ts = Inr x"
proof (cases x)
  case None
  then show ?thesis by (simp add: batch_target_def)
next
  case (Some v)
  have wf: "wf_tensor v" and ne: "shape v \<noteq> []" and hd: "hd (shape v) = length ts"
    using bf Some by (simp_all add: batch_field_def)
  have shv: "shape v = length ts # tl (shape v)" using ne hd by (cases "shape v") simp_all
  have lx: "length (unstack0 v) = length ts" by (rule length_unstack0[OF shv])
  have "map2 f (unstack0 v) ts = map Inr (unstack0 v)"
    using map2_fst[OF lx, of Inr] by (simp add: f)
  then have co: "collect (map2 f (unstack0 v) ts) = Inr (unstack0 v)"
    by (simp add: collect_map_Inr)
  have st: "stack0 (unstack0 v) = Inr v"
    by (rule stack0_unstack0[OF wf shv]) (use ts in simp)
  show ?thesis using ne hd by (simp add: Some batch_target_def co st)
qed

lemma inputs_images_update:
  "inp\<lparr>images := imgs\<rparr> =
   \<lparr>images = imgs, labels = labels inp, bounding_boxes = bounding_boxes inp\<rparr>"
  by (cases inp) simp

section \<open>Batches on the layers of the guide\<close>

text \<open>A batch without labels on a layer with the methods of RandomBlueTint, with the
  fast path and with the manual loop.\<close>

lemma batch3:
  assumes grt: "get_random_transformation L = get_random_transformation3 s"
    and ai: "augment_image L = (\<lambda>img t g. (augment_image3 img t, g))"
    and ab: "augment_bounding_boxes L = augment_bounding_boxes3"
    and va: "vectorized_augment L = Some vectorized_augment3"
    and wf: "wf_tensor (images inp)" and sh: "shape (images inp) = b # sh'"
    and ne: "sh' \<noteq> []" and c: "0 < last sh'" and b: "0 < b"
    and lab: "labels inp = None" and box: "batch_field b (bounding_boxes inp)"
    and dr: "draw_n (draw s) b g = (fs, g')"
  shows "batch_augment L inp g =
         (Inr \<lparr>images = \<lparr>shape = shape (images inp),
                  elems = tint (last sh') (\<lambda>j. map (\<lambda>f. f * 255) fs ! (j div prod_list sh'))
                               (elems (images inp))\<rparr>,
               labels = None, bounding_boxes = bounding_boxes inp\<rparr>, g')"
proof -
  define ts where "ts = map (\<lambda>f. Some (f * 255)) fs"
  define ks where "ks = map (\<lambda>f. f * 255) fs"
  define imgs where "imgs = \<lparr>shape = shape (images inp),
      elems = tint (last sh') (\<lambda>j. ks ! (j div prod_list sh')) (elems (images inp))\<rparr>"
  have dts: "draw_n (get_random_transformation L) b g = (ts, g')"
    unfolding grt ts_def by (rule draw_n_transformation3[OF dr])
  have lks: "length ks = b" using length_draw_n[OF dr] by (simp add: ks_def)
  have lts: "length ts = b" using length_draw_n[OF dr] by (simp add: ts_def)
  have tks: "ts = map Some ks" by (simp add: ts_def ks_def)
  show ?thesis
  proof (cases "auto_vectorize L")
    case True
    have "vectorized_augment_image3 (images inp) ts = Inr imgs"
      unfolding imgs_def
      by (rule vectorized_augment_image3_eq[OF wf sh ne c _ lks]) (simp add: tks those_map_Some)
    then have "vectorized_augment3 inp ts =
               Inr \<lparr>images = imgs, labels = None, bounding_boxes = bounding_boxes inp\<rparr>"
      by (simp add: vectorized_augment3_def lab inputs_images_update)
    then show ?thesis
      using True dts by (simp add: batch_augment_def va sh imgs_def ks_def)
  next
    case False
    define F where "F = (\<lambda>(x::tensor) (t::real option).
        \<lparr>shape = shape x, elems = tint (last sh') (\<lambda>j. the t) (elems x)\<rparr>)"
    have len: "length (unstack0 (images inp)) = b" by (rule length_unstack0[OF sh])
    have pure: "augment_image L x t g = (Inr (F x t), g)"
      if xin: "x \<in> set (unstack0 (images inp))" and tin: "t \<in> set ts" for x t g
    proof -
      obtain k where t: "t = Some k" using tin by (auto simp: tks)
      have x: "wf_tensor x" "shape x = sh'" using unstack0_slices[OF wf sh xin] by simp_all
      show ?thesis
        using augment_image3_eq[of x k] x ne c by (simp add: ai t F_def)
    qed
    have loop: "image_loop L (unstack0 (images inp)) g =
                (Inr (ts, map2 F (unstack0 (images inp)) ts), g')"
      by (rule image_loop_pure) (simp_all add: len dts pure)
    have "map2 F (unstack0 (images inp)) ts =
          map2 (\<lambda>x k. \<lparr>shape = shape x, elems = tint (last sh') (\<lambda>j. k) (elems x)\<rparr>)
               (unstack0 (images inp)) ks"
      unfolding tks map2_map_right by (simp add: F_def)
    then have st: "stack0 (map2 F (unstack0 (images inp)) ts) = Inr imgs"
      using loop_images3[OF wf sh ne lks b] by (simp add: imgs_def)
    have tne: "ts \<noteq> []" using lts b by auto
    have "batch_target (augment_bounding_boxes L) (bounding_boxes inp) ts =
          Inr (bounding_boxes inp)"
      by (rule batch_target_id) (simp_all add: ab augment_bounding_boxes3_def lts box tne)
    then have "batch_targets L inp ts (Inr imgs) =
          Inr \<lparr>images = imgs, labels = None, bounding_boxes = bounding_boxes inp\<rparr>"
      by (simp add: batch_targets_def lab batch_target_def)
    then show ?thesis
      using False loop st by (simp add: batch_augment_def imgs_def ks_def)
  qed
qed


lemma augment3_single:
  assumes grt: "get_random_transformation L = get_random_transformation3 s"
    and ai: "augment_image L = (\<lambda>img t g. (augment_image3 img t, g))"
    and al: "augment_label L = augment_label3"
    and ab: "augment_bounding_boxes L = augment_bounding_boxes3"
    and dr: "draw s g = (f, g')"
  shows "augment L inp g =
         (case augment_image3 (images inp) (Some (f * 255)) of
            Inl e \<Rightarrow> Inl e
          | Inr img \<Rightarrow>
              Inr \<lparr>images = img,
                   labels = map_option (\<lambda>l. if 100 < f * 255 then scalar 2 else l) (labels inp),
                   bounding_boxes = bounding_boxes inp\<rparr>, g')"
  by (cases "labels inp"; cases "bounding_boxes inp")
     (simp_all add: augment_def grt ai al ab get_random_transformation3_def dr
        augment_target_def augment_label3_def augment_bounding_boxes3_def split: sum.splits)

lemma process3_single:
  assumes grt: "get_random_transformation L = get_random_transformation3 s"
    and ai: "augment_image L = (\<lambda>img t g. (augment_image3 img t, g))"
    and al: "augment_label L = augment_label3"
    and ab: "augment_bounding_boxes L = augment_bounding_boxes3"
    and wf: "wf_tensor (images inp)" and pos: "0 < last (shape (images inp))"
    and r3: "length (shape (images inp)) = 3"
    and dr: "draw s g = (f, g')"
  shows "process L inp g =
         (Inr \<lparr>images = \<lparr>shape = shape (images inp),
                      elems = tint (last (shape (images inp))) (\<lambda>j. f * 255)
                                   (elems (images inp))\<rparr>,
              labels = map_option (\<lambda>l. if 100 < f * 255 then scalar 2 else l) (labels inp),
              bounding_boxes = bounding_boxes inp\<rparr>, g')"
    and "augment_image3 (images inp) (Some (f * 255)) =
         Inr \<lparr>shape = shape (images inp),
              elems = tint (last (shape (images inp))) (\<lambda>j. f * 255) (elems (images inp))\<rparr>"
proof -
  show img: "augment_image3 (images inp) (Some (f * 255)) =
                 Inr \<lparr>shape = shape (images inp),
                      elems = tint (last (shape (images inp))) (\<lambda>j. f * 255)
                                   (elems (images inp))\<rparr>"
    by (rule augment_image3_eq[OF wf rank3_shape[OF r3] pos])
  have "process L inp g = augment L inp g" using r3 by (simp add: process_def)
  also have "\<dots> = (Inr \<lparr>images = \<lparr>shape = shape (images inp),
                      elems = tint (last (shape (images inp))) (\<lambda>j. f * 255)
                                   (elems (images inp))\<rparr>,
              labels = map_option (\<lambda>l. if 100 < f * 255 then scalar 2 else l) (labels inp),
              bounding_boxes = bounding_boxes inp\<rparr>, g')"
    unfolding augment3_single[OF grt ai al ab dr] img by simp
  finally show "process L inp g =
         (Inr \<lparr>images = \<lparr>shape = shape (images inp),
                      elems = tint (last (shape (images inp))) (\<lambda>j. f * 255)
                                   (elems (images inp))\<rparr>,
              labels = map_option (\<lambda>l. if 100 < f * 255 then scalar 2 else l) (labels inp),
              bounding_boxes = bounding_boxes inp\<rparr>, g')" .
qed


text \<open>The batch of a layer with the methods of RandomBlueTint, the descriptors given by
  their position in the sequence of draws.\<close>

lemma process3_batch:
  assumes grt: "get_random_transformation L = get_random_transformation3 s"
    and ai: "augment_image L = (\<lambda>img t g. (augment_image3 img t, g))"
    and ab: "augment_bounding_boxes L = augment_bounding_boxes3"
    and va: "vectorized_augment L = Some vectorized_augment3"
    and wf: "wf_tensor (images inp)" and pos: "0 < last (shape (images inp))"
    and r4: "length (shape (images inp)) = 4" and n: "0 < hd (shape (images inp))"
    and lab: "labels inp = None"
    and box: "batch_field (hd (shape (images inp))) (bounding_boxes inp)"
  shows "\<exists>out. process L inp g = (Inr out, source_after (draw s) (hd (shape (images inp))) g) \<and>
           shape (images out) = shape (images inp) \<and>
           length (unstack0 (images out)) = hd (shape (images inp)) \<and>
           (\<forall>i < hd (shape (images inp)).
              augment_image3 (unstack0 (images inp) ! i) (Some (nth_draw (draw s) i g * 255)) =
                Inr (unstack0 (images out) ! i)) \<and>
           labels out = None \<and> bounding_boxes out = bounding_boxes inp"
proof -
  obtain b sh' where sh: "shape (images inp) = b # sh'" and ne: "sh' \<noteq> []"
    and la: "last sh' = last (shape (images inp))" and hd: "hd (shape (images inp)) = b"
    using rank4_shape[OF r4] by blast
  define fs where "fs = map (\<lambda>i. nth_draw (draw s) i g) [0..<b]"
  define ks where "ks = map (\<lambda>f. f * 255) fs"
  define imgs where "imgs = \<lparr>shape = shape (images inp),
      elems = tint (last sh') (\<lambda>j. ks ! (j div prod_list sh')) (elems (images inp))\<rparr>"
  define out where "out = \<lparr>images = imgs, labels = None, bounding_boxes = bounding_boxes inp\<rparr>"
  have dr: "draw_n (draw s) b g = (fs, source_after (draw s) b g)"
    unfolding fs_def by (rule draw_n_funpow)
  have c: "0 < last sh'" using pos la by simp
  have b: "0 < b" using n hd by simp
  have lks: "length ks = b" by (simp add: ks_def fs_def)
  have "batch_augment L inp g = (Inr out, source_after (draw s) b g)"
    unfolding out_def imgs_def ks_def
    by (rule batch3[OF grt ai ab va wf sh ne c b lab box[unfolded hd] dr])
  then have p: "process L inp g = (Inr out, source_after (draw s) (hd (shape (images inp))) g)"
    using r4 by (simp add: process_def hd)
  have shi: "shape imgs = b # sh'" by (simp add: imgs_def sh)
  have sl: "augment_image3 (unstack0 (images inp) ! i) (Some (nth_draw (draw s) i g * 255)) =
            Inr (unstack0 imgs ! i)" if i: "i < b" for i
  proof -
    have "ks ! i = nth_draw (draw s) i g * 255" using i by (simp add: ks_def fs_def)
    then show ?thesis
      using batch_slices3[OF wf sh ne c lks i] by (simp add: imgs_def)
  qed
  show ?thesis
    by (rule exI[of _ out])
       (simp add: p out_def sl hd length_unstack0[OF shi], simp add: imgs_def)
qed


section \<open>The label transform\<close>

text \<open>
  Claim C10. For every label and every descriptor \<open>t\<close> above 100, \<open>augment_label\<close>
  returns the constant 2.0 whatever the label is; for \<open>t\<close> at most 100 it returns the
  label unchanged.
\<close>

theorem augment_label_threshold:
  "(100 < t \<longrightarrow> augment_label3 label (Some t) = Inr (scalar 2)) \<and>
   (t \<le> 100 \<longrightarrow> augment_label3 label (Some t) = Inr label)"
  by (simp add: augment_label3_def)

theorem augment_label_threshold_witness:
  "augment_label3 \<lparr>shape = [1, 2], elems = [1, 0]\<rparr> (Some 153) = Inr (scalar 2) \<and>
   augment_label3 \<lparr>shape = [1, 2], elems = [1, 0]\<rparr> (Some 100) =
     Inr \<lparr>shape = [1, 2], elems = [1, 0]\<rparr>"
  using augment_label_threshold[of 153 "\<lparr>shape = [1, 2], elems = [1, 0]\<rparr>"]
        augment_label_threshold[of 100 "\<lparr>shape = [1, 2], elems = [1, 0]\<rparr>"]
  by simp

section \<open>Samplers and the factor argument\<close>

lemma draw_n_constant:
  "draw_n (draw (ConstantFactorSampler c)) n g = (replicate n c, g)"
  by (induction n) simp_all

text \<open>
  Claim C8. A constant sampler of value \<open>c\<close> returns exactly \<open>c\<close> at every draw, in
  any state of the random source and without reading it, so \<open>n\<close> draws in a row are
  \<open>n\<close> times \<open>c\<close>; the factor \<open>(c, c)\<close> is parsed to that sampler.
\<close>

theorem constant_sampler_draw:
  "draw (ConstantFactorSampler c) g = (c, g) \<and>
   draw_n (draw (ConstantFactorSampler c)) n g = (replicate n c, g) \<and>
   parse_factor (Tuple c c) = Inr (ConstantFactorSampler c) \<and>
   (case parse_factor (Tuple c c) of
      Inl e \<Rightarrow> False
    | Inr s \<Rightarrow> draw s g = (c, g) \<and> draw_n (draw s) n g = (replicate n c, g))"
  by (simp add: draw_n_constant parse_factor_def)

text \<open>
  Claim C5, as stated, fails: the factor \<open>(0.6, 0.6)\<close> of the guide is accepted. It is
  parsed to the constant sampler, and the layer built from it draws the descriptor 153.
\<close>

theorem factor_range_counterexample:
  "parse_factor (Tuple (6 / 10) (6 / 10)) = Inr (ConstantFactorSampler (6 / 10)) \<and>
   parse_factor (Tuple (6 / 10) (6 / 10)) \<noteq> Inl ConfigurationError \<and>
   (case RandomBlueTint3 (Tuple (6 / 10) (6 / 10)) of
      Inl e \<Rightarrow> False
    | Inr L \<Rightarrow> get_random_transformation L (\<lambda>n. 0) = (Some 153, \<lambda>n. 0))"
  by (simp add: parse_factor_def RandomBlueTint3_def get_random_transformation3_def)

text \<open>
  Claim C5, amended. A factor range \<open>(lo, hi)\<close> with \<open>lo > hi\<close> fails with
  ConfigurationError when the layer is constructed, so before any draw; a range with
  \<open>lo = hi\<close> is accepted and gives the constant sampler of \<open>lo\<close>; a range with
  \<open>lo < hi\<close> gives the uniform sampler.
\<close>

theorem factor_range_check:
  "(hi < lo \<longrightarrow> parse_factor (Tuple lo hi) = Inl ConfigurationError \<and>
                 RandomBlueTint2 (Tuple lo hi) = Inl ConfigurationError \<and>
                 RandomBlueTint3 (Tuple lo hi) = Inl ConfigurationError \<and>
                 RandomBlueTint4 r (Tuple lo hi) = Inl ConfigurationError) \<and>
   (lo = hi \<longrightarrow> parse_factor (Tuple lo hi) = Inr (ConstantFactorSampler lo)) \<and>
   (lo < hi \<longrightarrow> parse_factor (Tuple lo hi) = Inr (UniformFactorSampler lo hi))"
  by (simp add: parse_factor_def RandomBlueTint2_def RandomBlueTint3_def RandomBlueTint4_def)

theorem factor_range_check_witness:
  "parse_factor (Tuple (1 / 2) (1 / 10)) = Inl ConfigurationError \<and>
   RandomBlueTint3 (Tuple (1 / 2) (1 / 10)) = Inl ConfigurationError \<and>
   parse_factor (Tuple (1 / 2) (1 / 2)) = Inr (ConstantFactorSampler (1 / 2)) \<and>
   parse_factor (Tuple 0 (1 / 2)) = Inr (UniformFactorSampler 0 (1 / 2))"
  using factor_range_check[of "1 / 10" "1 / 2"] factor_range_check[of "1 / 2" "1 / 2"]
        factor_range_check[of "1 / 2" 0]
  by simp

section \<open>The value range\<close>

lemma rescale_roundtrip:
  "lo < hi \<Longrightarrow> rescale (0, 255) (lo, hi) (rescale (lo, hi) (0, 255) v) = v"
  by (simp add: rescale_def field_simps)

text \<open>
  Claim C3. For a declared range \<open>(lo, hi)\<close> with \<open>lo < hi\<close> and values in
  \<open>[lo, hi]\<close>, rescaling into the canonical range and back with the same declared range
  reproduces the values, and both rescalings are linear (of the form \<open>a * v + b\<close>).
  Over the real numbers the round trip is exact.
\<close>

theorem value_range_roundtrip:
  assumes "lo < hi" and "\<forall>v \<in> set (elems t). lo \<le> v \<and> v \<le> hi"
  shows "(case to_canonical t (lo, hi) of
            Inl e \<Rightarrow> False
          | Inr t' \<Rightarrow> from_canonical t' (lo, hi) = Inr t) \<and>
         (\<exists>a b. \<forall>v. rescale (lo, hi) (0, 255) v = a * v + b) \<and>
         (\<exists>a b. \<forall>v. rescale (0, 255) (lo, hi) v = a * v + b)"
proof (intro conjI)
  show "case to_canonical t (lo, hi) of Inl e \<Rightarrow> False
        | Inr t' \<Rightarrow> from_canonical t' (lo, hi) = Inr t"
    using assms(1)
    by (simp add: to_canonical_def from_canonical_def transform_value_range_def
        rescale_roundtrip o_def)
  have "\<forall>v. rescale (lo, hi) (0, 255) v = (255 / (hi - lo)) * v + (- lo * 255 / (hi - lo))"
    by (simp add: rescale_def diff_divide_distrib algebra_simps)
  then show "\<exists>a b. \<forall>v. rescale (lo, hi) (0, 255) v = a * v + b" by blast
  have "\<forall>v. rescale (0, 255) (lo, hi) v = ((hi - lo) / 255) * v + lo"
    by (simp add: rescale_def diff_divide_distrib algebra_simps)
  then show "\<exists>a b. \<forall>v. rescale (0, 255) (lo, hi) v = a * v + b" by blast
qed

theorem value_range_roundtrip_witness:
  "from_canonical \<lparr>shape = [1, 1, 3], elems = [0, 127.5, 255]\<rparr> (0, 1) =
     Inr \<lparr>shape = [1, 1, 3], elems = [0, 1 / 2, 1]\<rparr> \<and>
   to_canonical \<lparr>shape = [1, 1, 3], elems = [0, 1 / 2, 1]\<rparr> (0, 1) =
     Inr \<lparr>shape = [1, 1, 3], elems = [0, 127.5, 255]\<rparr>"
  using value_range_roundtrip[of 0 1 "\<lparr>shape = [1, 1, 3], elems = [0, 1 / 2, 1]\<rparr>"]
  by (simp add: to_canonical_def transform_value_range_def rescale_def)

section \<open>The blue channel without a value range\<close>

text \<open>
  Claim C9. For every image (a well-formed tensor with at least one channel) and every
  non-negative descriptor, the values of the last channel of the output of the
  \<open>augment_image\<close> that knows no value range lie in \<open>[0, 255]\<close>, whatever the range of
  the input is; so do those of the minimal layer, whose shift is 100 whatever the
  descriptor is. An input normalized to \<open>[0, 1]\<close> gets values far above 1 (here 26.5
  for the factor 0.1).
\<close>

theorem blue_channel_range:
  assumes "wf_tensor img" and "shape img \<noteq> []" and "0 < last (shape img)" and "0 \<le> k"
  shows "(\<exists>out. augment_image3 img (Some k) = Inr out \<and> shape out = shape img \<and>
            (\<forall>j < length (elems img). j mod last (shape img) = last (shape img) - 1 \<longrightarrow>
                 0 \<le> elems out ! j \<and> elems out ! j \<le> 255)) \<and>
         (\<exists>out. augment_image1 img t = Inr out \<and> shape out = shape img \<and>
            (\<forall>j < length (elems img). j mod last (shape img) = last (shape img) - 1 \<longrightarrow>
                 0 \<le> elems out ! j \<and> elems out ! j \<le> 255)) \<and>
         augment_image3 \<lparr>shape = [1, 1, 3], elems = [1, 1, 1]\<rparr> (Some 25.5) =
           Inr \<lparr>shape = [1, 1, 3], elems = [1, 1, 26.5]\<rparr>"
proof (intro conjI)
  show "\<exists>out. augment_image3 img (Some k) = Inr out \<and> shape out = shape img \<and>
            (\<forall>j < length (elems img). j mod last (shape img) = last (shape img) - 1 \<longrightarrow>
                 0 \<le> elems out ! j \<and> elems out ! j \<le> 255)"
    unfolding augment_image3_eq[OF assms(1-3)] by (simp add: tint_nth)
  show "\<exists>out. augment_image1 img t = Inr out \<and> shape out = shape img \<and>
            (\<forall>j < length (elems img). j mod last (shape img) = last (shape img) - 1 \<longrightarrow>
                 0 \<le> elems out ! j \<and> elems out ! j \<le> 255)"
    unfolding augment_image1_eq3 augment_image3_eq[OF assms(1-3)] by (simp add: tint_nth)
  show "augment_image3 \<lparr>shape = [1, 1, 3], elems = [1, 1, 1]\<rparr> (Some 25.5) =
           Inr \<lparr>shape = [1, 1, 3], elems = [1, 1, 26.5]\<rparr>"
    by (simp add: augment_image3_eq wf_tensor_def tint_def)
qed

theorem blue_channel_range_witness:
  "\<exists>out. augment_image3 \<lparr>shape = [1, 1, 3], elems = [1 / 5, 1 / 2, 1]\<rparr> (Some 25.5) = Inr out \<and>
         shape out = [1, 1, 3] \<and> 0 \<le> elems out ! 2 \<and> elems out ! 2 \<le> 255"
  using blue_channel_range[of "\<lparr>shape = [1, 1, 3], elems = [1 / 5, 1 / 2, 1]\<rparr>" "25.5"]
  by (auto simp: wf_tensor_def)

section \<open>The scenario of a batch of three images\<close>

lemma index4_bound:
  assumes "n < (3::nat)" and "i < (4::nat)" and "j < (4::nat)" and "c < (3::nat)"
  shows "((n * 4 + i) * 4 + j) * 3 + c < 144"
    and "(((n * 4 + i) * 4 + j) * 3 + c) mod 3 = c"
    and "(((n * 4 + i) * 4 + j) * 3 + c) div 48 < 3"
proof -
  show b: "((n * 4 + i) * 4 + j) * 3 + c < 144" using assms by simp
  show "(((n * 4 + i) * 4 + j) * 3 + c) mod 3 = c"
    using assms(4) mod_mult_self3[of "(n * 4 + i) * 4 + j" 3 c] by (simp only: mod_less)
  show "(((n * 4 + i) * 4 + j) * 3 + c) div 48 < 3" using b by simp
qed

lemma scenario_batch:
  assumes grt: "get_random_transformation L = get_random_transformation3 (ConstantFactorSampler (k / 255))"
    and ai: "augment_image L = (\<lambda>img t g. (augment_image3 img t, g))"
    and ab: "augment_bounding_boxes L = augment_bounding_boxes3"
    and va: "vectorized_augment L = Some vectorized_augment3"
    and wf: "wf_tensor (images inp)" and sh: "shape (images inp) = [3, 4, 4, 3]"
    and rng: "\<forall>x \<in> set (elems (images inp)). 0 \<le> x \<and> x \<le> 255" and k: "0 \<le> k"
    and nt: "labels inp = None" "bounding_boxes inp = None"
  shows "\<exists>out. process L inp g = (Inr out, g) \<and> shape (images out) = [3, 4, 4, 3] \<and>
           (\<forall>n < 3. \<forall>i < 4. \<forall>j < 4.
              at4 (images out) n i j 2 = min (at4 (images inp) n i j 2 + k) 255 \<and>
              at4 (images out) n i j 0 = at4 (images inp) n i j 0 \<and>
              at4 (images out) n i j 1 = at4 (images inp) n i j 1)"
proof -
  define ks where "ks = map (\<lambda>f. f * 255) (replicate 3 (k / 255))"
  define imgs where "imgs = \<lparr>shape = shape (images inp),
      elems = tint 3 (\<lambda>j. ks ! (j div 48)) (elems (images inp))\<rparr>"
  have dr: "draw_n (draw (ConstantFactorSampler (k / 255))) 3 g = (replicate 3 (k / 255), g)"
    by (rule draw_n_constant)
  have len: "length (elems (images inp)) = 144" using wf by (simp add: wf_tensor_def sh)
  have bf: "batch_field 3 (bounding_boxes inp)" by (simp add: batch_field_def nt)
  have "batch_augment L inp g =
        (Inr \<lparr>images = imgs, labels = None, bounding_boxes = bounding_boxes inp\<rparr>, g)"
    using batch3[OF grt ai ab va wf, of 3 "[4, 4, 3]", OF _ _ _ _ nt(1) bf dr] sh
    by (simp add: imgs_def ks_def)
  then have p: "process L inp g =
        (Inr \<lparr>images = imgs, labels = None, bounding_boxes = None\<rparr>, g)"
    by (simp add: process_def sh nt)
  have ksn: "ks ! m = k" if "m < 3" for m
    using that by (simp add: ks_def)
  have el: "elems imgs ! J =
            (if J mod 3 = 2 then min (elems (images inp) ! J + k) 255 else elems (images inp) ! J)"
    if J: "J < 144" for J
  proof -
    have "J div 48 < 3" using J by simp
    then have kk: "ks ! (J div 48) = k" by (rule ksn)
    have "elems (images inp) ! J \<in> set (elems (images inp))" using J len by simp
    then have "0 \<le> elems (images inp) ! J" using rng by blast
    then have "max (min (elems (images inp) ! J + k) 255) 0 = min (elems (images inp) ! J + k) 255"
      using k by simp
    then show ?thesis using J len by (simp add: imgs_def tint_nth kk)
  qed
  have at: "at4 imgs n i j c =
            (if c = 2 then min (at4 (images inp) n i j c + k) 255 else at4 (images inp) n i j c)"
    if "n < 3" "i < 4" "j < 4" "c < 3" for n i j c
    using el[OF index4_bound(1)[OF that]] index4_bound(2)[OF that]
    by (simp add: at4_def sh imgs_def)
  have "\<forall>n < 3. \<forall>i < 4. \<forall>j < 4.
              at4 imgs n i j 2 = min (at4 (images inp) n i j 2 + k) 255 \<and>
              at4 imgs n i j 0 = at4 (images inp) n i j 0 \<and>
              at4 imgs n i j 1 = at4 (images inp) n i j 1"
    by (simp add: at)
  moreover have "shape imgs = [3, 4, 4, 3]" by (simp add: imgs_def sh)
  ultimately show ?thesis
    by (intro exI[of _ "\<lparr>images = imgs, labels = None, bounding_boxes = None\<rparr>"])
       (simp add: p)
qed

text \<open>
  Claim C7. For a batch of 3 samples of shape (4, 4, 3) with values in \<open>[0, 255]\<close>
  and the transform "add the constant \<open>k \<ge> 0\<close> to the last channel, clip to
  \<open>[0, 255]\<close>" (RandomBlueTint with the constant factor \<open>k / 255\<close>), the output
  batch has the shape (3, 4, 4, 3), every value of the last channel is
  \<open>min (original + k) 255\<close>, and the other channels are unchanged; with the fast path
  and with the manual loop.
\<close>

theorem blue_tint_batch_scenario:
  assumes wf: "wf_tensor (images inp)" and sh: "shape (images inp) = [3, 4, 4, 3]"
    and rng: "\<forall>x \<in> set (elems (images inp)). 0 \<le> x \<and> x \<le> 255" and k: "0 \<le> k"
    and nt: "labels inp = None" "bounding_boxes inp = None"
  shows "case RandomBlueTint3 (Sampler (ConstantFactorSampler (k / 255))) of
           Inl e \<Rightarrow> False
         | Inr L \<Rightarrow>
             (\<forall>L' \<in> {L, UnVectorizable L}.
                \<exists>out. process L' inp g = (Inr out, g) \<and> shape (images out) = [3, 4, 4, 3] \<and>
                  (\<forall>n < 3. \<forall>i < 4. \<forall>j < 4.
                     at4 (images out) n i j 2 = min (at4 (images inp) n i j 2 + k) 255 \<and>
                     at4 (images out) n i j 0 = at4 (images inp) n i j 0 \<and>
                     at4 (images out) n i j 1 = at4 (images inp) n i j 1))"
proof -
  obtain L where L: "RandomBlueTint3 (Sampler (ConstantFactorSampler (k / 255))) = Inr L"
    by (simp add: RandomBlueTint3_def parse_factor_def)
  have "\<exists>out. process L' inp g = (Inr out, g) \<and> shape (images out) = [3, 4, 4, 3] \<and>
           (\<forall>n < 3. \<forall>i < 4. \<forall>j < 4.
              at4 (images out) n i j 2 = min (at4 (images inp) n i j 2 + k) 255 \<and>
              at4 (images out) n i j 0 = at4 (images inp) n i j 0 \<and>
              at4 (images out) n i j 1 = at4 (images inp) n i j 1)"
    if L': "L' \<in> {L, UnVectorizable L}" for L'
  proof -
    have "L' = L \<or> L' = UnVectorizable L" using L' by simp
    from layer3_unvectorizable_fields[OF L this]
    obtain s where ps: "parse_factor (Sampler (ConstantFactorSampler (k / 255))) = Inr s"
      and grt: "get_random_transformation L' = get_random_transformation3 s"
      and ai: "augment_image L' = (\<lambda>img t g. (augment_image3 img t, g))"
      and ab: "augment_bounding_boxes L' = augment_bounding_boxes3"
      and va: "vectorized_augment L' = Some vectorized_augment3"
      by blast
    have s: "s = ConstantFactorSampler (k / 255)" using ps by (simp add: parse_factor_def)
    show ?thesis
      by (rule scenario_batch[OF grt[unfolded s] ai ab va wf sh rng k nt])
  qed
  then show ?thesis unfolding L sum.case by (rule ballI)
qed

theorem blue_tint_batch_scenario_witness:
  "case RandomBlueTint3 (Sampler (ConstantFactorSampler (100 / 255))) of
     Inl e \<Rightarrow> False
   | Inr L \<Rightarrow>
       (\<exists>out. process L \<lparr>images = \<lparr>shape = [3, 4, 4, 3], elems = replicate 144 200\<rparr>,
                          labels = None, bounding_boxes = None\<rparr> (\<lambda>n. 0) = (Inr out, \<lambda>n. 0) \<and>
              shape (images out) = [3, 4, 4, 3] \<and>
              at4 (images out) 2 2 3 2 = 255 \<and> at4 (images out) 2 2 3 0 = 200) \<and>
       (\<exists>out. process (UnVectorizable L)
                  \<lparr>images = \<lparr>shape = [3, 4, 4, 3], elems = replicate 144 200\<rparr>,
                   labels = None, bounding_boxes = None\<rparr> (\<lambda>n. 0) = (Inr out, \<lambda>n. 0) \<and>
              shape (images out) = [3, 4, 4, 3] \<and>
              at4 (images out) 2 2 3 2 = 255 \<and> at4 (images out) 2 2 3 0 = 200)"
proof -
  define inp where "inp = \<lparr>images = \<lparr>shape = [3, 4, 4, 3], elems = replicate 144 200\<rparr>,
                          labels = None, bounding_boxes = None\<rparr>"
  have a: "at4 (images inp) 2 2 3 2 = 200" "at4 (images inp) 2 2 3 0 = 200"
    by (simp_all add: inp_def at4_def)
  have h: "wf_tensor (images inp)" "shape (images inp) = [3, 4, 4, 3]"
    "\<forall>x \<in> set (elems (images inp)). 0 \<le> x \<and> x \<le> 255" "(0::real) \<le> 100"
    "labels inp = None" "bounding_boxes inp = None"
    by (simp_all add: inp_def wf_tensor_def)
  note t = blue_tint_batch_scenario[OF h, where g = "\<lambda>n. 0"]
  obtain L where L: "RandomBlueTint3 (Sampler (ConstantFactorSampler (100 / 255))) = Inr L"
    by (simp add: RandomBlueTint3_def parse_factor_def)
  have "\<exists>out. process L' inp (\<lambda>n. 0) = (Inr out, \<lambda>n. 0) \<and>
              shape (images out) = [3, 4, 4, 3] \<and>
              at4 (images out) 2 2 3 2 = 255 \<and> at4 (images out) 2 2 3 0 = 200"
    if "L' \<in> {L, UnVectorizable L}" for L'
  proof -
    from t[unfolded L sum.case, THEN bspec, OF that]
    obtain out where o: "process L' inp (\<lambda>n. 0) = (Inr out, \<lambda>n. 0)"
      "shape (images out) = [3, 4, 4, 3]"
      and v: "\<forall>n < 3. \<forall>i < 4. \<forall>j < 4.
                     at4 (images out) n i j 2 = min (at4 (images inp) n i j 2 + 100) 255 \<and>
                     at4 (images out) n i j 0 = at4 (images inp) n i j 0 \<and>
                     at4 (images out) n i j 1 = at4 (images inp) n i j 1"
      by blast
    have "at4 (images out) 2 2 3 2 = min (at4 (images inp) 2 2 3 2 + 100) 255 \<and>
          at4 (images out) 2 2 3 0 = at4 (images inp) 2 2 3 0 \<and>
          at4 (images out) 2 2 3 1 = at4 (images inp) 2 2 3 1"
      by (rule v[THEN spec, THEN mp, THEN spec, THEN mp, THEN spec, THEN mp]) simp_all
    then have "at4 (images out) 2 2 3 2 = 255 \<and> at4 (images out) 2 2 3 0 = 200"
      by (simp add: a)
    then show ?thesis using o by blast
  qed
  then show ?thesis unfolding L sum.case inp_def by simp
qed

section \<open>Purity of the image transform\<close>

lemma pure_call:
  assumes "\<exists>extra. m a t w =
     (case R of Inl e \<Rightarrow> Inl e | Inr out \<Rightarrow> Inr (length (store w) + length extra - 1),
      w\<lparr>store := store w @ extra\<rparr>) \<and>
     (case R of Inl e \<Rightarrow> True | Inr out \<Rightarrow> extra \<noteq> [] \<and> last extra = out)"
  shows "case m a t w of
           (r, w') \<Rightarrow>
             source w' = source w \<and> take (length (store w)) (store w') = store w \<and>
             (case r of
                Inl e \<Rightarrow> R = Inl e
              | Inr b \<Rightarrow> length (store w) \<le> b \<and> b < length (store w') \<and>
                         R = Inr (store w' ! b))"
proof -
  obtain extra where m: "m a t w =
     (case R of Inl e \<Rightarrow> Inl e | Inr out \<Rightarrow> Inr (length (store w) + length extra - 1),
      w\<lparr>store := store w @ extra\<rparr>)"
    and l: "case R of Inl e \<Rightarrow> True | Inr out \<Rightarrow> extra \<noteq> [] \<and> last extra = out"
    using assms by blast
  show ?thesis
  proof (cases R)
    case (Inl e)
    then show ?thesis by (simp add: m)
  next
    case (Inr out)
    then have ne: "extra \<noteq> []" and la: "last extra = out" using l by simp_all
    then have "(store w @ extra) ! (length (store w) + length extra - 1) = out"
      by (cases extra rule: rev_cases) (simp_all add: nth_append)
    moreover have "length (store w) \<le> length (store w) + length extra - 1"
      "length (store w) + length extra - 1 < length (store w @ extra)"
      using ne by (cases extra, simp_all)+
    ultimately show ?thesis by (simp add: m Inr)
  qed
qed

lemma extends_call2:
  "case augment_image2_call s a t w of
     (r, w') \<Rightarrow> take (length (store w)) (store w') = store w"
proof -
  obtain extra where "augment_image2_call s a t w =
     (case fst (augment_image2 s (store w ! a) t (source w)) of
        Inl e \<Rightarrow> Inl e
      | Inr out \<Rightarrow> Inr (length (store w) + length extra - 1),
      w\<lparr>source := snd (augment_image2 s (store w ! a) t (source w)),
        store := store w @ extra\<rparr>)"
    using augment_image2_call_eq[of s a t w] by blast
  then show ?thesis by simp
qed

lemma layer2_image:
  assumes "RandomBlueTint2 factor = Inr L"
  shows "\<exists>s. parse_factor factor = Inr s \<and> augment_image L = augment_image2 s"
  using assms
  by (auto simp: RandomBlueTint2_def BaseImageAugmentationLayer_def call_method2
      split: sum.splits)

lemma layer4_image:
  assumes "RandomBlueTint4 r factor = Inr L"
  shows "augment_image L = (\<lambda>img t g. (augment_image4 r img t, g))"
  using assms
  by (auto simp: RandomBlueTint4_def BaseImageAugmentationLayer_def call_method4
      split: sum.splits)

lemma augment_image2_constant:
  "augment_image2 (ConstantFactorSampler c) img t g =
   (fst (augment_image2 (ConstantFactorSampler c) img t g'), g)"
  by (simp add: augment_image2_def split: sum.splits prod.splits)

lemma augment_image2_uniform:
  assumes "lo < hi"
  shows "fst (augment_image2 (UniformFactorSampler lo hi) \<lparr>shape = [1], elems = [- lo * 255]\<rparr>
                None (\<lambda>n. 0)) \<noteq>
         fst (augment_image2 (UniformFactorSampler lo hi) \<lparr>shape = [1], elems = [- lo * 255]\<rparr>
                None (\<lambda>n. 1))"
    and "snd (augment_image2 (UniformFactorSampler lo hi) \<lparr>shape = [1], elems = [- lo * 255]\<rparr>
                None (\<lambda>n. real n)) \<noteq> (\<lambda>n. real n)"
proof -
  have "0 < hi * 255 - lo * 255" using assms by simp
  then have "max (min (hi * 255 - lo * 255) 255) 0 \<noteq> 0" by simp
  then show "fst (augment_image2 (UniformFactorSampler lo hi) \<lparr>shape = [1], elems = [- lo * 255]\<rparr>
                None (\<lambda>n. 0)) \<noteq>
         fst (augment_image2 (UniformFactorSampler lo hi) \<lparr>shape = [1], elems = [- lo * 255]\<rparr>
                None (\<lambda>n. 1))"
    by (simp add: augment_image2_def unstack_last_def unpack_last_def stack_last_def
        clip_by_value_def add_scalar_def next_variate_def Let_def algebra_simps)
  have "(\<lambda>n. real (Suc n)) 0 \<noteq> (\<lambda>n. real n) 0" by simp
  then have "(\<lambda>n. real (Suc n)) \<noteq> (\<lambda>n. real n)" by metis
  then show "snd (augment_image2 (UniformFactorSampler lo hi) \<lparr>shape = [1], elems = [- lo * 255]\<rparr>
                None (\<lambda>n. real n)) \<noteq> (\<lambda>n. real n)"
    by (simp add: augment_image2_def unstack_last_def unpack_last_def stack_last_def
        clip_by_value_def add_scalar_def next_variate_def Let_def)
qed

text \<open>
  Claim C6, as stated, fails for the layer that samples its factor inside
  \<open>augment_image\<close>: with the factor 0.5, the same image and the same descriptor give
  different outputs in two states of the random source, and the call consumes a variate.
\<close>

theorem sampling_inside_counterexample:
  "(case RandomBlueTint2 (Float (1 / 2)) of
      Inl e \<Rightarrow> False
    | Inr L \<Rightarrow>
        fst (augment_image L \<lparr>shape = [1, 1, 3], elems = [0, 0, 0]\<rparr> None (\<lambda>n. 0)) =
          Inr \<lparr>shape = [1, 1, 3], elems = [0, 0, 0]\<rparr> \<and>
        fst (augment_image L \<lparr>shape = [1, 1, 3], elems = [0, 0, 0]\<rparr> None (\<lambda>n. 1 / 2)) =
          Inr \<lparr>shape = [1, 1, 3], elems = [0, 0, 63.75]\<rparr> \<and>
        fst (augment_image L \<lparr>shape = [1, 1, 3], elems = [0, 0, 0]\<rparr> None (\<lambda>n. 0)) \<noteq>
        fst (augment_image L \<lparr>shape = [1, 1, 3], elems = [0, 0, 0]\<rparr> None (\<lambda>n. 1 / 2)) \<and>
        snd (augment_image L \<lparr>shape = [1, 1, 3], elems = [0, 0, 0]\<rparr> None (\<lambda>n. real n)) 0 = 1)"
  by (simp add: RandomBlueTint2_def parse_factor_def BaseImageAugmentationLayer_def
      call_method2 augment_image2_def unstack_last_def unpack_last_def stack_last_def
      clip_by_value_def add_scalar_def next_variate_def Let_def upt_rec)

text \<open>
  Claim C6, amended. The image transforms that receive the descriptor as an argument
  (of the minimal layer, of the layer with \<open>get_random_transformation\<close>, of the layer
  with \<open>value_range\<close>) are pure. Called on an image of the store, each leaves the
  random source as it was and every object that existed before the call as it was, the
  image among them; what it returns is a new object, whose value is a function of the
  value of the image and of the descriptor alone. So the layer's \<open>augment_image\<close>
  returns the same output in every state of the source and returns the source
  untouched. The transform that samples its factor inside \<open>augment_image\<close> leaves
  the existing objects as they were too, but for a factor range \<open>(lo, hi)\<close> it is
  deterministic, and leaves the source untouched, exactly when \<open>lo = hi\<close>.
\<close>

theorem augment_image_pure:
  assumes "a < length (store w)"
  shows "(case augment_image1_call a t w of
            (r, w') \<Rightarrow>
              source w' = source w \<and> take (length (store w)) (store w') = store w \<and>
              (case r of
                 Inl e \<Rightarrow> augment_image1 (store w ! a) t = Inl e
               | Inr b \<Rightarrow> length (store w) \<le> b \<and> b < length (store w') \<and>
                          augment_image1 (store w ! a) t = Inr (store w' ! b))) \<and>
         (case augment_image3_call a t w of
            (r, w') \<Rightarrow>
              source w' = source w \<and> take (length (store w)) (store w') = store w \<and>
              (case r of
                 Inl e \<Rightarrow> augment_image3 (store w ! a) t = Inl e
               | Inr b \<Rightarrow> length (store w) \<le> b \<and> b < length (store w') \<and>
                          augment_image3 (store w ! a) t = Inr (store w' ! b))) \<and>
         (case augment_image4_call value_range a t w of
            (r, w') \<Rightarrow>
              source w' = source w \<and> take (length (store w)) (store w') = store w \<and>
              (case r of
                 Inl e \<Rightarrow> augment_image4 value_range (store w ! a) t = Inl e
               | Inr b \<Rightarrow> length (store w) \<le> b \<and> b < length (store w') \<and>
                          augment_image4 value_range (store w ! a) t = Inr (store w' ! b))) \<and>
         (case augment_image2_call s a t w of
            (r, w') \<Rightarrow> take (length (store w)) (store w') = store w) \<and>
         augment_image RandomBlueTint1 img t g = (augment_image1 img t, g) \<and>
         (case RandomBlueTint3 factor of
            Inl e \<Rightarrow> True
          | Inr L \<Rightarrow> augment_image L img t g = (augment_image3 img t, g)) \<and>
         (case RandomBlueTint4 value_range factor of
            Inl e \<Rightarrow> True
          | Inr L \<Rightarrow> augment_image L img t g = (augment_image4 value_range img t, g)) \<and>
         (case RandomBlueTint2 (Tuple lo hi) of
            Inl e \<Rightarrow> hi < lo
          | Inr L \<Rightarrow>
              ((\<forall>x d h h'. fst (augment_image L x d h) = fst (augment_image L x d h')) \<longleftrightarrow>
                 lo = hi) \<and>
              ((\<forall>x d h. snd (augment_image L x d h) = h) \<longleftrightarrow> lo = hi))"
proof (intro conjI)
  show "case augment_image3_call a t w of
            (r, w') \<Rightarrow>
              source w' = source w \<and> take (length (store w)) (store w') = store w \<and>
              (case r of
                 Inl e \<Rightarrow> augment_image3 (store w ! a) t = Inl e
               | Inr b \<Rightarrow> length (store w) \<le> b \<and> b < length (store w') \<and>
                          augment_image3 (store w ! a) t = Inr (store w' ! b))"
    by (rule pure_call) (rule augment_image3_call_eq)
  show "case augment_image1_call a t w of
            (r, w') \<Rightarrow>
              source w' = source w \<and> take (length (store w)) (store w') = store w \<and>
              (case r of
                 Inl e \<Rightarrow> augment_image1 (store w ! a) t = Inl e
               | Inr b \<Rightarrow> length (store w) \<le> b \<and> b < length (store w') \<and>
                          augment_image1 (store w ! a) t = Inr (store w' ! b))"
    unfolding augment_image1_call_eq3 augment_image1_eq3
    by (rule pure_call) (rule augment_image3_call_eq)
  show "case augment_image4_call value_range a t w of
            (r, w') \<Rightarrow>
              source w' = source w \<and> take (length (store w)) (store w') = store w \<and>
              (case r of
                 Inl e \<Rightarrow> augment_image4 value_range (store w ! a) t = Inl e
               | Inr b \<Rightarrow> length (store w) \<le> b \<and> b < length (store w') \<and>
                          augment_image4 value_range (store w ! a) t = Inr (store w' ! b))"
    by (rule pure_call) (rule augment_image4_call_eq)
  show "case augment_image2_call s a t w of
            (r, w') \<Rightarrow> take (length (store w)) (store w') = store w"
    by (rule extends_call2)
  show "augment_image RandomBlueTint1 img t g = (augment_image1 img t, g)"
    by (simp add: layer1_fields)
  show "case RandomBlueTint3 factor of
            Inl e \<Rightarrow> True
          | Inr L \<Rightarrow> augment_image L img t g = (augment_image3 img t, g)"
    using layer3_fields[of factor] by (auto split: sum.splits)
  show "case RandomBlueTint4 value_range factor of
            Inl e \<Rightarrow> True
          | Inr L \<Rightarrow> augment_image L img t g = (augment_image4 value_range img t, g)"
    using layer4_image[of value_range factor] by (auto split: sum.splits)
  show "case RandomBlueTint2 (Tuple lo hi) of
            Inl e \<Rightarrow> hi < lo
          | Inr L \<Rightarrow>
              ((\<forall>x d h h'. fst (augment_image L x d h) = fst (augment_image L x d h')) \<longleftrightarrow>
                 lo = hi) \<and>
              ((\<forall>x d h. snd (augment_image L x d h) = h) \<longleftrightarrow> lo = hi)"
  proof (cases "RandomBlueTint2 (Tuple lo hi)")
    case (Inl e)
    then show ?thesis
      by (simp add: RandomBlueTint2_def parse_factor_def split: if_splits)
  next
    case (Inr L)
    obtain s where ps: "parse_factor (Tuple lo hi) = Inr s" and ai: "augment_image L = augment_image2 s"
      using layer2_image[OF Inr] by blast
    show ?thesis
    proof (cases "lo = hi")
      case True
      then have s: "s = ConstantFactorSampler lo" using ps by (simp add: parse_factor_def)
      have "fst (augment_image L x d h) = fst (augment_image L x d h')"
           "snd (augment_image L x d h) = h" for x d h h'
        using augment_image2_constant[of lo x d h h'] by (simp_all add: ai s)
      then show ?thesis unfolding Inr sum.case using True by simp
    next
      case False
      then have lohi: "lo < hi" and s: "s = UniformFactorSampler lo hi"
        using ps by (simp_all add: parse_factor_def split: if_splits)
      note u = augment_image2_uniform[OF lohi, folded s, folded ai]
      have "\<not> (\<forall>x d h h'. fst (augment_image L x d h) = fst (augment_image L x d h'))"
        using u(1) by blast
      moreover have "\<not> (\<forall>x d h. snd (augment_image L x d h) = h)"
        using u(2) by blast
      ultimately show ?thesis unfolding Inr sum.case using False by simp
    qed
  qed
qed

theorem augment_image_pure_witness:
  "\<exists>b w'. augment_image3_call 0 (Some 153)
             \<lparr>source = (\<lambda>n. 0), store = [\<lparr>shape = [1, 1, 3], elems = [10, 20, 30]\<rparr>]\<rparr> =
             (Inr b, w') \<and>
           store w' ! b = \<lparr>shape = [1, 1, 3], elems = [10, 20, 183]\<rparr> \<and> 0 < b \<and>
           store w' ! 0 = \<lparr>shape = [1, 1, 3], elems = [10, 20, 30]\<rparr> \<and>
           source w' = (\<lambda>n. 0)"
proof -
  define w where
    "w = \<lparr>source = (\<lambda>n. 0::real), store = [\<lparr>shape = [1, 1, 3], elems = [10, 20, 30]\<rparr>]\<rparr>"
  have v: "augment_image3 (store w ! 0) (Some 153) =
           Inr \<lparr>shape = [1, 1, 3], elems = [10, 20, 183]\<rparr>"
    by (simp add: w_def augment_image3_eq wf_tensor_def tint_def)
  obtain r w' where c: "augment_image3_call 0 (Some 153) w = (r, w')"
    by (cases "augment_image3_call 0 (Some 153) w")
  have "0 < length (store w)" by (simp add: w_def)
  from augment_image_pure[OF this, where t = "Some 153", THEN conjunct2, THEN conjunct1]
  have p: "source w' = source w" "take (length (store w)) (store w') = store w"
    "case r of
       Inl e \<Rightarrow> augment_image3 (store w ! 0) (Some 153) = Inl e
     | Inr b \<Rightarrow> length (store w) \<le> b \<and> b < length (store w') \<and>
                augment_image3 (store w ! 0) (Some 153) = Inr (store w' ! b)"
    unfolding c by simp_all
  from p(3) v obtain b where r: "r = Inr b" and b: "length (store w) \<le> b"
    and o: "store w' ! b = \<lparr>shape = [1, 1, 3], elems = [10, 20, 183]\<rparr>"
    by (cases r) simp_all
  have "take (length (store w)) (store w') ! 0 = store w' ! 0" by (simp add: w_def)
  then have i: "store w' ! 0 = \<lparr>shape = [1, 1, 3], elems = [10, 20, 30]\<rparr>"
    unfolding p(2) by (simp add: w_def)
  show ?thesis
    using c r o i b p(1) unfolding w_def by auto
qed

section \<open>The vectorized path and the manual loop\<close>







section \<open>Single samples and batches\<close>






section \<open>One descriptor for all the fields of a sample\<close>

lemma batch_targets_Inr:
  assumes "batch_targets L inp ts r = Inr out"
  shows "r = Inr (images out) \<and>
         batch_target (augment_label L) (labels inp) ts = Inr (labels out) \<and>
         batch_target (augment_bounding_boxes L) (bounding_boxes inp) ts = Inr (bounding_boxes out)"
  using assms by (auto simp: batch_targets_def split: sum.splits)

lemma augment_Inr:
  assumes "augment M inp g = (Inr out, g')"
  shows "augment_image M (images inp) (fst (get_random_transformation M g))
           (snd (get_random_transformation M g)) = (Inr (images out), g') \<and>
         augment_target (augment_label M) (labels inp) (fst (get_random_transformation M g)) =
           Inr (labels out) \<and>
         augment_target (augment_bounding_boxes M) (bounding_boxes inp)
           (fst (get_random_transformation M g)) = Inr (bounding_boxes out)"
  using assms by (auto simp: augment_def split: prod.splits sum.splits)

lemma loop_batch_Inr:
  assumes pure: "\<And>x t h. augment_image M x t h = (F x t, h)"
    and nv: "\<not> auto_vectorize M \<or> vectorized_augment M = None"
    and r4: "length (shape (images inp)) = 4"
    and p: "process M inp g = (Inr out, g')"
  shows "g' = source_after (get_random_transformation M) (hd (shape (images inp))) g \<and>
         (\<exists>ys. stack0 ys = Inr (images out) \<and> length ys = hd (shape (images inp)) \<and>
            (\<forall>i < hd (shape (images inp)).
               F (unstack0 (images inp) ! i) (nth_draw (get_random_transformation M) i g) =
                 Inr (ys ! i))) \<and>
         (\<forall>v. labels inp = Some v \<longrightarrow>
            (\<exists>ls v'. labels out = Some v' \<and> stack0 ls = Inr v' \<and>
               length ls = hd (shape (images inp)) \<and>
               (\<forall>i < hd (shape (images inp)).
                  augment_label M (unstack0 v ! i) (nth_draw (get_random_transformation M) i g) =
                    Inr (ls ! i)))) \<and>
         (\<forall>v. bounding_boxes inp = Some v \<longrightarrow>
            (\<exists>bs v'. bounding_boxes out = Some v' \<and> stack0 bs = Inr v' \<and>
               length bs = hd (shape (images inp)) \<and>
               (\<forall>i < hd (shape (images inp)).
                  augment_bounding_boxes M (unstack0 v ! i)
                    (nth_draw (get_random_transformation M) i g) = Inr (bs ! i))))"
proof -
  obtain b sh' where sh: "shape (images inp) = b # sh'" and hd: "hd (shape (images inp)) = b"
    using rank4_shape[OF r4] by blast
  have len: "length (unstack0 (images inp)) = b" by (rule length_unstack0[OF sh])
  have "batch_augment M inp g = (Inr out, g')" using p r4 by (simp add: process_def)
  moreover have "(if auto_vectorize M then vectorized_augment M else None) = None"
    using nv by auto
  ultimately obtain ts ys
    where loop: "image_loop M (unstack0 (images inp)) g = (Inr (ts, ys), g')"
    and bt: "batch_targets M inp ts (stack0 ys) = Inr out"
    by (auto simp: batch_augment_def split: prod.splits sum.splits)
  note il = image_loop_Inr[of M F, OF pure loop, unfolded len]
  note tg = batch_targets_Inr[OF bt]
  have lts: "length ts = b" using il by simp
  have tsi: "ts ! i = nth_draw (get_random_transformation M) i g" if "i < b" for i
    using il that by simp
  have target: "\<exists>rs v'. r = Some v' \<and> stack0 rs = Inr v' \<and> length rs = b \<and>
           (\<forall>i < b. f (unstack0 v ! i) (nth_draw (get_random_transformation M) i g) =
                      Inr (rs ! i))"
    if "batch_target f (Some v) ts = Inr r" for f v r
    using batch_target_Some[OF that] tsi unfolding lts by auto
  show ?thesis unfolding hd
  proof (intro conjI allI impI)
    show "g' = source_after (get_random_transformation M) b g" using il by simp
    show "\<exists>ys. stack0 ys = Inr (images out) \<and> length ys = b \<and>
            (\<forall>i < b. F (unstack0 (images inp) ! i) (nth_draw (get_random_transformation M) i g) =
                 Inr (ys ! i))"
      using il tg by (intro exI[of _ ys]) auto
  next
    fix v assume "labels inp = Some v"
    then show "\<exists>ls v'. labels out = Some v' \<and> stack0 ls = Inr v' \<and> length ls = b \<and>
               (\<forall>i < b. augment_label M (unstack0 v ! i)
                           (nth_draw (get_random_transformation M) i g) = Inr (ls ! i))"
      using target[of "augment_label M" v "labels out"] tg by auto
  next
    fix v assume "bounding_boxes inp = Some v"
    then show "\<exists>bs v'. bounding_boxes out = Some v' \<and> stack0 bs = Inr v' \<and> length bs = b \<and>
               (\<forall>i < b. augment_bounding_boxes M (unstack0 v ! i)
                    (nth_draw (get_random_transformation M) i g) = Inr (bs ! i))"
      using target[of "augment_bounding_boxes M" v "bounding_boxes out"] tg by auto
  qed
qed


text \<open>
  Claim C4. The descriptor is drawn once per sample, and the same value is passed to
  the transform of every field of that sample. For every layer whose image transform
  is pure and every single sample that is processed: the random source is left as the
  one call of \<open>get_random_transformation\<close> left it, and the image, the label and
  the bounding boxes of the output are the image transform, \<open>augment_label\<close> and
  \<open>augment_bounding_boxes\<close> of the input at the one descriptor that call returned.
  For every such layer and every batch of N samples processed by the manual loop: the
  source is left in its state after N calls, the output image is the stack of the
  transformed slices, and so are the labels and the bounding boxes when present, the
  i-th slice of each transformed with the value of the i-th call. On RandomBlueTint,
  with the fast path and with the manual loop, a single sample is always processed, with
  the descriptor \<open>f * 255\<close> of the one draw \<open>f\<close> of the sampler, and so is a batch
  of N \<ge> 1 images without labels, the i-th image with the descriptor of the i-th draw.
  In the example layer with the constant factor 0.6 the descriptor is 153: it shifts the
  blue channel by 153 and the label transform returns 2.0.
\<close>

theorem descriptor_drawn_once:
  assumes pure: "\<And>x t h. augment_image M x t h = (F x t, h)"
  shows "(length (shape (images inp)) = 3 \<longrightarrow>
            (\<forall>out g'. process M inp g = (Inr out, g') \<longrightarrow>
               g' = snd (get_random_transformation M g) \<and>
               F (images inp) (fst (get_random_transformation M g)) = Inr (images out) \<and>
               augment_target (augment_label M) (labels inp)
                 (fst (get_random_transformation M g)) = Inr (labels out) \<and>
               augment_target (augment_bounding_boxes M) (bounding_boxes inp)
                 (fst (get_random_transformation M g)) = Inr (bounding_boxes out))) \<and>
         (length (shape (images inp)) = 4 \<and>
          (\<not> auto_vectorize M \<or> vectorized_augment M = None) \<longrightarrow>
            (\<forall>out g'. process M inp g = (Inr out, g') \<longrightarrow>
               g' = source_after (get_random_transformation M) (hd (shape (images inp))) g \<and>
               (\<exists>ys. stack0 ys = Inr (images out) \<and> length ys = hd (shape (images inp)) \<and>
                  (\<forall>i < hd (shape (images inp)).
                     F (unstack0 (images inp) ! i)
                       (nth_draw (get_random_transformation M) i g) = Inr (ys ! i))) \<and>
               (\<forall>v. labels inp = Some v \<longrightarrow>
                  (\<exists>ls v'. labels out = Some v' \<and> stack0 ls = Inr v' \<and>
                     length ls = hd (shape (images inp)) \<and>
                     (\<forall>i < hd (shape (images inp)).
                        augment_label M (unstack0 v ! i)
                          (nth_draw (get_random_transformation M) i g) = Inr (ls ! i)))) \<and>
               (\<forall>v. bounding_boxes inp = Some v \<longrightarrow>
                  (\<exists>bs v'. bounding_boxes out = Some v' \<and> stack0 bs = Inr v' \<and>
                     length bs = hd (shape (images inp)) \<and>
                     (\<forall>i < hd (shape (images inp)).
                        augment_bounding_boxes M (unstack0 v ! i)
                          (nth_draw (get_random_transformation M) i g) = Inr (bs ! i)))))) \<and>
         (wf_tensor (images inp) \<and> 0 < last (shape (images inp)) \<longrightarrow>
            (case RandomBlueTint3 factor of
               Inl e \<Rightarrow> True
             | Inr L \<Rightarrow>
                 (case parse_factor factor of
                    Inl e \<Rightarrow> False
                  | Inr s \<Rightarrow>
                      get_random_transformation L g = (Some (fst (draw s g) * 255), snd (draw s g)) \<and>
                      (\<forall>L' \<in> {L, UnVectorizable L}.
                       (length (shape (images inp)) = 3 \<longrightarrow>
                          (\<exists>out. process L' inp g = (Inr out, snd (draw s g)) \<and>
                             augment_image3 (images inp) (Some (fst (draw s g) * 255)) =
                               Inr (images out) \<and>
                             map_option (\<lambda>l. augment_label3 l (Some (fst (draw s g) * 255)))
                                 (labels inp) = map_option Inr (labels out) \<and>
                             map_option
                                 (\<lambda>b. augment_bounding_boxes3 b (Some (fst (draw s g) * 255)))
                                 (bounding_boxes inp) = map_option Inr (bounding_boxes out))) \<and>
                       (length (shape (images inp)) = 4 \<and> 0 < hd (shape (images inp)) \<and>
                        labels inp = None \<and>
                        batch_field (hd (shape (images inp))) (bounding_boxes inp) \<longrightarrow>
                          (\<exists>out. process L' inp g =
                                   (Inr out, source_after (draw s) (hd (shape (images inp))) g) \<and>
                             (\<forall>i < hd (shape (images inp)).
                                augment_image3 (unstack0 (images inp) ! i)
                                  (Some (nth_draw (draw s) i g * 255)) =
                                Inr (unstack0 (images out) ! i)) \<and>
                             labels out = None \<and> bounding_boxes out = bounding_boxes inp)))))) \<and>
         (case RandomBlueTint3 (Tuple (6 / 10) (6 / 10)) of
            Inl e \<Rightarrow> False
          | Inr L \<Rightarrow>
              get_random_transformation L g = (Some 153, g) \<and>
              (wf_tensor (images inp) \<and> 0 < last (shape (images inp)) \<and>
               length (shape (images inp)) = 3 \<longrightarrow>
                 process L inp g =
                   (Inr \<lparr>images = \<lparr>shape = shape (images inp),
                                   elems = tint (last (shape (images inp))) (\<lambda>j. 153)
                                                (elems (images inp))\<rparr>,
                         labels = map_option (\<lambda>l. scalar 2) (labels inp),
                         bounding_boxes = bounding_boxes inp\<rparr>, g)))"
proof (intro conjI)
  show "(length (shape (images inp)) = 3 \<longrightarrow>
            (\<forall>out g'. process M inp g = (Inr out, g') \<longrightarrow>
               g' = snd (get_random_transformation M g) \<and>
               F (images inp) (fst (get_random_transformation M g)) = Inr (images out) \<and>
               augment_target (augment_label M) (labels inp)
                 (fst (get_random_transformation M g)) = Inr (labels out) \<and>
               augment_target (augment_bounding_boxes M) (bounding_boxes inp)
                 (fst (get_random_transformation M g)) = Inr (bounding_boxes out)))"
  proof (intro impI allI)
    fix out g'
    assume r3: "length (shape (images inp)) = 3" and p: "process M inp g = (Inr out, g')"
    then have "augment M inp g = (Inr out, g')" by (simp add: process_def)
    from augment_Inr[OF this, unfolded pure]
    show "g' = snd (get_random_transformation M g) \<and>
               F (images inp) (fst (get_random_transformation M g)) = Inr (images out) \<and>
               augment_target (augment_label M) (labels inp)
                 (fst (get_random_transformation M g)) = Inr (labels out) \<and>
               augment_target (augment_bounding_boxes M) (bounding_boxes inp)
                 (fst (get_random_transformation M g)) = Inr (bounding_boxes out)"
      by simp
  qed
next
  show "(length (shape (images inp)) = 4 \<and>
          (\<not> auto_vectorize M \<or> vectorized_augment M = None) \<longrightarrow>
            (\<forall>out g'. process M inp g = (Inr out, g') \<longrightarrow>
               g' = source_after (get_random_transformation M) (hd (shape (images inp))) g \<and>
               (\<exists>ys. stack0 ys = Inr (images out) \<and> length ys = hd (shape (images inp)) \<and>
                  (\<forall>i < hd (shape (images inp)).
                     F (unstack0 (images inp) ! i)
                       (nth_draw (get_random_transformation M) i g) = Inr (ys ! i))) \<and>
               (\<forall>v. labels inp = Some v \<longrightarrow>
                  (\<exists>ls v'. labels out = Some v' \<and> stack0 ls = Inr v' \<and>
                     length ls = hd (shape (images inp)) \<and>
                     (\<forall>i < hd (shape (images inp)).
                        augment_label M (unstack0 v ! i)
                          (nth_draw (get_random_transformation M) i g) = Inr (ls ! i)))) \<and>
               (\<forall>v. bounding_boxes inp = Some v \<longrightarrow>
                  (\<exists>bs v'. bounding_boxes out = Some v' \<and> stack0 bs = Inr v' \<and>
                     length bs = hd (shape (images inp)) \<and>
                     (\<forall>i < hd (shape (images inp)).
                        augment_bounding_boxes M (unstack0 v ! i)
                          (nth_draw (get_random_transformation M) i g) = Inr (bs ! i))))))"
  proof (intro impI allI)
    fix out g'
    assume h: "length (shape (images inp)) = 4 \<and>
          (\<not> auto_vectorize M \<or> vectorized_augment M = None)"
      and p: "process M inp g = (Inr out, g')"
    from h have r4: "length (shape (images inp)) = 4"
      and nv: "\<not> auto_vectorize M \<or> vectorized_augment M = None" by simp_all
    show "g' = source_after (get_random_transformation M) (hd (shape (images inp))) g \<and>
               (\<exists>ys. stack0 ys = Inr (images out) \<and> length ys = hd (shape (images inp)) \<and>
                  (\<forall>i < hd (shape (images inp)).
                     F (unstack0 (images inp) ! i)
                       (nth_draw (get_random_transformation M) i g) = Inr (ys ! i))) \<and>
               (\<forall>v. labels inp = Some v \<longrightarrow>
                  (\<exists>ls v'. labels out = Some v' \<and> stack0 ls = Inr v' \<and>
                     length ls = hd (shape (images inp)) \<and>
                     (\<forall>i < hd (shape (images inp)).
                        augment_label M (unstack0 v ! i)
                          (nth_draw (get_random_transformation M) i g) = Inr (ls ! i)))) \<and>
               (\<forall>v. bounding_boxes inp = Some v \<longrightarrow>
                  (\<exists>bs v'. bounding_boxes out = Some v' \<and> stack0 bs = Inr v' \<and>
                     length bs = hd (shape (images inp)) \<and>
                     (\<forall>i < hd (shape (images inp)).
                        augment_bounding_boxes M (unstack0 v ! i)
                          (nth_draw (get_random_transformation M) i g) = Inr (bs ! i))))"
      by (rule loop_batch_Inr[of M F, OF pure nv r4 p])
  qed
next
  show "(wf_tensor (images inp) \<and> 0 < last (shape (images inp)) \<longrightarrow>
            (case RandomBlueTint3 factor of
               Inl e \<Rightarrow> True
             | Inr L \<Rightarrow>
                 (case parse_factor factor of
                    Inl e \<Rightarrow> False
                  | Inr s \<Rightarrow>
                      get_random_transformation L g = (Some (fst (draw s g) * 255), snd (draw s g)) \<and>
                      (\<forall>L' \<in> {L, UnVectorizable L}.
                       (length (shape (images inp)) = 3 \<longrightarrow>
                          (\<exists>out. process L' inp g = (Inr out, snd (draw s g)) \<and>
                             augment_image3 (images inp) (Some (fst (draw s g) * 255)) =
                               Inr (images out) \<and>
                             map_option (\<lambda>l. augment_label3 l (Some (fst (draw s g) * 255)))
                                 (labels inp) = map_option Inr (labels out) \<and>
                             map_option
                                 (\<lambda>b. augment_bounding_boxes3 b (Some (fst (draw s g) * 255)))
                                 (bounding_boxes inp) = map_option Inr (bounding_boxes out))) \<and>
                       (length (shape (images inp)) = 4 \<and> 0 < hd (shape (images inp)) \<and>
                        labels inp = None \<and>
                        batch_field (hd (shape (images inp))) (bounding_boxes inp) \<longrightarrow>
                          (\<exists>out. process L' inp g =
                                   (Inr out, source_after (draw s) (hd (shape (images inp))) g) \<and>
                             (\<forall>i < hd (shape (images inp)).
                                augment_image3 (unstack0 (images inp) ! i)
                                  (Some (nth_draw (draw s) i g * 255)) =
                                Inr (unstack0 (images out) ! i)) \<and>
                             labels out = None \<and> bounding_boxes out = bounding_boxes inp))))))"
  proof (rule impI)
    assume h: "wf_tensor (images inp) \<and> 0 < last (shape (images inp))"
    then have wf: "wf_tensor (images inp)" and pos: "0 < last (shape (images inp))"
      by simp_all
    show "case RandomBlueTint3 factor of
               Inl e \<Rightarrow> True
             | Inr L \<Rightarrow>
                 (case parse_factor factor of
                    Inl e \<Rightarrow> False
                  | Inr s \<Rightarrow>
                      get_random_transformation L g = (Some (fst (draw s g) * 255), snd (draw s g)) \<and>
                      (\<forall>L' \<in> {L, UnVectorizable L}.
                       (length (shape (images inp)) = 3 \<longrightarrow>
                          (\<exists>out. process L' inp g = (Inr out, snd (draw s g)) \<and>
                             augment_image3 (images inp) (Some (fst (draw s g) * 255)) =
                               Inr (images out) \<and>
                             map_option (\<lambda>l. augment_label3 l (Some (fst (draw s g) * 255)))
                                 (labels inp) = map_option Inr (labels out) \<and>
                             map_option
                                 (\<lambda>b. augment_bounding_boxes3 b (Some (fst (draw s g) * 255)))
                                 (bounding_boxes inp) = map_option Inr (bounding_boxes out))) \<and>
                       (length (shape (images inp)) = 4 \<and> 0 < hd (shape (images inp)) \<and>
                        labels inp = None \<and>
                        batch_field (hd (shape (images inp))) (bounding_boxes inp) \<longrightarrow>
                          (\<exists>out. process L' inp g =
                                   (Inr out, source_after (draw s) (hd (shape (images inp))) g) \<and>
                             (\<forall>i < hd (shape (images inp)).
                                augment_image3 (unstack0 (images inp) ! i)
                                  (Some (nth_draw (draw s) i g * 255)) =
                                Inr (unstack0 (images out) ! i)) \<and>
                             labels out = None \<and> bounding_boxes out = bounding_boxes inp))))"
    proof (cases "RandomBlueTint3 factor")
      case (Inl e)
      then show ?thesis by simp
    next
      case (Inr L)
      obtain s where ps: "parse_factor factor = Inr s"
        and grtL: "get_random_transformation L = get_random_transformation3 s"
        using layer3_fields[OF Inr] by blast
      have t: "get_random_transformation L g = (Some (fst (draw s g) * 255), snd (draw s g))"
        by (simp add: grtL get_random_transformation3_def case_prod_unfold Let_def)
      have main: "(length (shape (images inp)) = 3 \<longrightarrow>
                          (\<exists>out. process L' inp g = (Inr out, snd (draw s g)) \<and>
                             augment_image3 (images inp) (Some (fst (draw s g) * 255)) =
                               Inr (images out) \<and>
                             map_option (\<lambda>l. augment_label3 l (Some (fst (draw s g) * 255)))
                                 (labels inp) = map_option Inr (labels out) \<and>
                             map_option
                                 (\<lambda>b. augment_bounding_boxes3 b (Some (fst (draw s g) * 255)))
                                 (bounding_boxes inp) = map_option Inr (bounding_boxes out))) \<and>
                       (length (shape (images inp)) = 4 \<and> 0 < hd (shape (images inp)) \<and>
                        labels inp = None \<and>
                        batch_field (hd (shape (images inp))) (bounding_boxes inp) \<longrightarrow>
                          (\<exists>out. process L' inp g =
                                   (Inr out, source_after (draw s) (hd (shape (images inp))) g) \<and>
                             (\<forall>i < hd (shape (images inp)).
                                augment_image3 (unstack0 (images inp) ! i)
                                  (Some (nth_draw (draw s) i g * 255)) =
                                Inr (unstack0 (images out) ! i)) \<and>
                             labels out = None \<and> bounding_boxes out = bounding_boxes inp))"
        if L': "L' = L \<or> L' = UnVectorizable L" for L'
      proof -
        obtain s' where ps': "parse_factor factor = Inr s'"
          and grt': "get_random_transformation L' = get_random_transformation3 s'"
          and ai': "augment_image L' = (\<lambda>img t g. (augment_image3 img t, g))"
          and al': "augment_label L' = augment_label3"
          and ab': "augment_bounding_boxes L' = augment_bounding_boxes3"
          and va': "vectorized_augment L' = Some vectorized_augment3"
          using layer3_unvectorizable_fields[OF Inr L'] by blast
        have ss: "s' = s" using ps ps' by simp
        note grt = grt'[unfolded ss]
        show ?thesis
        proof (intro conjI impI)
          assume r3: "length (shape (images inp)) = 3"
          have dr: "draw s g = (fst (draw s g), snd (draw s g))" by simp
          note p = process3_single[OF grt ai' al' ab' wf pos r3 dr]
          have lab: "map_option (\<lambda>l. augment_label3 l (Some (fst (draw s g) * 255))) (labels inp) =
                map_option Inr (map_option
                  (\<lambda>l. if 100 < fst (draw s g) * 255 then scalar 2 else l) (labels inp))"
            by (cases "labels inp") (simp_all add: augment_label3_def)
          have box: "map_option (\<lambda>b. augment_bounding_boxes3 b (Some (fst (draw s g) * 255)))
                       (bounding_boxes inp) = map_option Inr (bounding_boxes inp)"
            by (cases "bounding_boxes inp") (simp_all add: augment_bounding_boxes3_def)
          show "\<exists>out. process L' inp g = (Inr out, snd (draw s g)) \<and>
                             augment_image3 (images inp) (Some (fst (draw s g) * 255)) =
                               Inr (images out) \<and>
                             map_option (\<lambda>l. augment_label3 l (Some (fst (draw s g) * 255)))
                                 (labels inp) = map_option Inr (labels out) \<and>
                             map_option
                                 (\<lambda>b. augment_bounding_boxes3 b (Some (fst (draw s g) * 255)))
                                 (bounding_boxes inp) = map_option Inr (bounding_boxes out)"
            by (rule exI, rule conjI[OF p(1)]) (simp add: p(2) lab box)
        next
          assume h4: "length (shape (images inp)) = 4 \<and> 0 < hd (shape (images inp)) \<and>
                      labels inp = None \<and>
                      batch_field (hd (shape (images inp))) (bounding_boxes inp)"
          then have r4: "length (shape (images inp)) = 4" and n: "0 < hd (shape (images inp))"
            and lab: "labels inp = None"
            and box: "batch_field (hd (shape (images inp))) (bounding_boxes inp)"
            by simp_all
          from process3_batch[OF grt ai' ab' va' wf pos r4 n lab box, of g]
          show "\<exists>out. process L' inp g =
                                   (Inr out, source_after (draw s) (hd (shape (images inp))) g) \<and>
                             (\<forall>i < hd (shape (images inp)).
                                augment_image3 (unstack0 (images inp) ! i)
                                  (Some (nth_draw (draw s) i g * 255)) =
                                Inr (unstack0 (images out) ! i)) \<and>
                             labels out = None \<and> bounding_boxes out = bounding_boxes inp"
            by blast
        qed
      qed
      have all: "\<forall>L' \<in> {L, UnVectorizable L}.
                       (length (shape (images inp)) = 3 \<longrightarrow>
                          (\<exists>out. process L' inp g = (Inr out, snd (draw s g)) \<and>
                             augment_image3 (images inp) (Some (fst (draw s g) * 255)) =
                               Inr (images out) \<and>
                             map_option (\<lambda>l. augment_label3 l (Some (fst (draw s g) * 255)))
                                 (labels inp) = map_option Inr (labels out) \<and>
                             map_option
                                 (\<lambda>b. augment_bounding_boxes3 b (Some (fst (draw s g) * 255)))
                                 (bounding_boxes inp) = map_option Inr (bounding_boxes out))) \<and>
                       (length (shape (images inp)) = 4 \<and> 0 < hd (shape (images inp)) \<and>
                        labels inp = None \<and>
                        batch_field (hd (shape (images inp))) (bounding_boxes inp) \<longrightarrow>
                          (\<exists>out. process L' inp g =
                                   (Inr out, source_after (draw s) (hd (shape (images inp))) g) \<and>
                             (\<forall>i < hd (shape (images inp)).
                                augment_image3 (unstack0 (images inp) ! i)
                                  (Some (nth_draw (draw s) i g * 255)) =
                                Inr (unstack0 (images out) ! i)) \<and>
                             labels out = None \<and> bounding_boxes out = bounding_boxes inp))"
      proof (rule ballI)
        fix L' assume "L' \<in> {L, UnVectorizable L}"
        then have "L' = L \<or> L' = UnVectorizable L" by simp
        then show "(length (shape (images inp)) = 3 \<longrightarrow>
                          (\<exists>out. process L' inp g = (Inr out, snd (draw s g)) \<and>
                             augment_image3 (images inp) (Some (fst (draw s g) * 255)) =
                               Inr (images out) \<and>
                             map_option (\<lambda>l. augment_label3 l (Some (fst (draw s g) * 255)))
                                 (labels inp) = map_option Inr (labels out) \<and>
                             map_option
                                 (\<lambda>b. augment_bounding_boxes3 b (Some (fst (draw s g) * 255)))
                                 (bounding_boxes inp) = map_option Inr (bounding_boxes out))) \<and>
                       (length (shape (images inp)) = 4 \<and> 0 < hd (shape (images inp)) \<and>
                        labels inp = None \<and>
                        batch_field (hd (shape (images inp))) (bounding_boxes inp) \<longrightarrow>
                          (\<exists>out. process L' inp g =
                                   (Inr out, source_after (draw s) (hd (shape (images inp))) g) \<and>
                             (\<forall>i < hd (shape (images inp)).
                                augment_image3 (unstack0 (images inp) ! i)
                                  (Some (nth_draw (draw s) i g * 255)) =
                                Inr (unstack0 (images out) ! i)) \<and>
                             labels out = None \<and> bounding_boxes out = bounding_boxes inp))"
          by (rule main)
      qed
      show ?thesis unfolding Inr ps sum.case by (rule conjI[OF t all])
    qed
  qed
next
  show "(case RandomBlueTint3 (Tuple (6 / 10) (6 / 10)) of
            Inl e \<Rightarrow> False
          | Inr L \<Rightarrow>
              get_random_transformation L g = (Some 153, g) \<and>
              (wf_tensor (images inp) \<and> 0 < last (shape (images inp)) \<and>
               length (shape (images inp)) = 3 \<longrightarrow>
                 process L inp g =
                   (Inr \<lparr>images = \<lparr>shape = shape (images inp),
                                   elems = tint (last (shape (images inp))) (\<lambda>j. 153)
                                                (elems (images inp))\<rparr>,
                         labels = map_option (\<lambda>l. scalar 2) (labels inp),
                         bounding_boxes = bounding_boxes inp\<rparr>, g)))"
  proof -
    obtain L where L: "RandomBlueTint3 (Tuple (6 / 10) (6 / 10)) = Inr L"
      by (simp add: RandomBlueTint3_def parse_factor_def)
    obtain s where ps: "parse_factor (Tuple (6 / 10) (6 / 10)) = Inr s"
      and grt: "get_random_transformation L = get_random_transformation3 s"
      and ai: "augment_image L = (\<lambda>img t g. (augment_image3 img t, g))"
      and al: "augment_label L = augment_label3"
      and ab: "augment_bounding_boxes L = augment_bounding_boxes3"
      using layer3_fields[OF L] by blast
    have s: "s = ConstantFactorSampler (6 / 10)" using ps by (simp add: parse_factor_def)
    have dr: "draw s g = (6 / 10, g)" by (simp add: s)
    have t: "get_random_transformation L g = (Some 153, g)"
      by (simp add: grt get_random_transformation3_def dr)
    have "process L inp g =
                   (Inr \<lparr>images = \<lparr>shape = shape (images inp),
                                   elems = tint (last (shape (images inp))) (\<lambda>j. 153)
                                                (elems (images inp))\<rparr>,
                         labels = map_option (\<lambda>l. scalar 2) (labels inp),
                         bounding_boxes = bounding_boxes inp\<rparr>, g)"
      if "wf_tensor (images inp) \<and> 0 < last (shape (images inp)) \<and>
          length (shape (images inp)) = 3"
    proof -
      from that have wf: "wf_tensor (images inp)" and pos: "0 < last (shape (images inp))"
        and r3: "length (shape (images inp)) = 3" by simp_all
      show ?thesis using process3_single(1)[OF grt ai al ab wf pos r3 dr] by simp
    qed
    then show ?thesis unfolding L sum.case using t by blast
  qed
qed


theorem descriptor_drawn_once_witness:
  "(case RandomBlueTint3 (Tuple 0 1) of
      Inl e \<Rightarrow> False
    | Inr L \<Rightarrow>
        process (UnVectorizable L)
          \<lparr>images = \<lparr>shape = [2, 1, 1, 3], elems = [10, 20, 30, 40, 50, 250]\<rparr>,
           labels = Some \<lparr>shape = [2, 2], elems = [1, 0, 0, 1]\<rparr>,
           bounding_boxes = Some \<lparr>shape = [2, 1], elems = [5, 7]\<rparr>\<rparr>
          (\<lambda>n. if n = 0 then 1 / 2 else 6 / 10) =
          (Inr \<lparr>images = \<lparr>shape = [2, 1, 1, 3], elems = [10, 20, 157.5, 40, 50, 255]\<rparr>,
                labels = Some \<lparr>shape = [2], elems = [2, 2]\<rparr>,
                bounding_boxes = Some \<lparr>shape = [2, 1], elems = [5, 7]\<rparr>\<rparr>,
           source_after (get_random_transformation L) 2
             (\<lambda>n. if n = 0 then 1 / 2 else 6 / 10)) \<and>
        nth_draw (get_random_transformation L) 0 (\<lambda>n. if n = 0 then 1 / 2 else 6 / 10) =
          Some 127.5 \<and>
        nth_draw (get_random_transformation L) 1 (\<lambda>n. if n = 0 then 1 / 2 else 6 / 10) =
          Some 153 \<and>
        (\<exists>ls. stack0 ls = Inr \<lparr>shape = [2], elems = [2, 2]\<rparr> \<and>
           augment_label3 \<lparr>shape = [2], elems = [1, 0]\<rparr> (Some 127.5) = Inr (ls ! 0) \<and>
           augment_label3 \<lparr>shape = [2], elems = [0, 1]\<rparr> (Some 153) = Inr (ls ! 1)) \<and>
        (\<exists>out. process L
                  \<lparr>images = \<lparr>shape = [2, 1, 1, 3], elems = [10, 20, 30, 40, 50, 250]\<rparr>,
                   labels = None,
                   bounding_boxes = Some \<lparr>shape = [2, 1], elems = [5, 7]\<rparr>\<rparr>
                  (\<lambda>n. if n = 0 then 1 / 2 else 6 / 10) =
                  (Inr out, source_after (draw (UniformFactorSampler 0 1)) 2
                              (\<lambda>n. if n = 0 then 1 / 2 else 6 / 10)) \<and>
           unstack0 (images out) ! 0 = \<lparr>shape = [1, 1, 3], elems = [10, 20, 157.5]\<rparr> \<and>
           unstack0 (images out) ! 1 = \<lparr>shape = [1, 1, 3], elems = [40, 50, 255]\<rparr> \<and>
           bounding_boxes out = Some \<lparr>shape = [2, 1], elems = [5, 7]\<rparr>)) \<and>
   (case RandomBlueTint3 (Tuple (6 / 10) (6 / 10)) of
      Inl e \<Rightarrow> False
    | Inr L \<Rightarrow>
        get_random_transformation L (\<lambda>n. 0) = (Some 153, \<lambda>n. 0) \<and>
        process L \<lparr>images = \<lparr>shape = [1, 1, 3], elems = [10, 20, 30]\<rparr>,
                   labels = Some \<lparr>shape = [1, 2], elems = [1, 0]\<rparr>,
                   bounding_boxes = None\<rparr> (\<lambda>n. 0) =
          (Inr \<lparr>images = \<lparr>shape = [1, 1, 3], elems = [10, 20, 183]\<rparr>,
                labels = Some (scalar 2), bounding_boxes = None\<rparr>, \<lambda>n. 0)) \<and>
   (\<exists>out g'.
      process (BaseImageAugmentationLayer
                 \<lparr>get_random_transformation :=
                    get_random_transformation3 (UniformFactorSampler 0 1),
                  augment_bounding_boxes :=
                    (\<lambda>b t. case t of None \<Rightarrow> Inl ValueError
                            | Some k \<Rightarrow> Inr (add_scalar b k))\<rparr>)
        \<lparr>images = \<lparr>shape = [1, 1, 3], elems = [10, 20, 30]\<rparr>,
         labels = None,
         bounding_boxes = Some \<lparr>shape = [1, 2], elems = [5, 7]\<rparr>\<rparr>
        (\<lambda>n. 1 / 2) = (Inr out, g') \<and>
      bounding_boxes out = Some \<lparr>shape = [1, 2], elems = [132.5, 134.5]\<rparr>)"
proof (intro conjI)
  define G :: rng where "G = (\<lambda>n. if n = 0 then 1 / 2 else 6 / 10)"
  define B where "B = \<lparr>images = \<lparr>shape = [2, 1, 1, 3], elems = [10, 20, 30, 40, 50, 250]\<rparr>,
           labels = Some \<lparr>shape = [2, 2], elems = [1, 0, 0, 1]\<rparr>,
           bounding_boxes = Some \<lparr>shape = [2, 1], elems = [5, 7]\<rparr>\<rparr>"
  define OUT where
    "OUT = \<lparr>images = \<lparr>shape = [2, 1, 1, 3], elems = [10, 20, 157.5, 40, 50, 255]\<rparr>,
            labels = Some \<lparr>shape = [2], elems = [2, 2]\<rparr>,
            bounding_boxes = Some \<lparr>shape = [2, 1], elems = [5, 7]\<rparr>\<rparr>"
  obtain L where L: "RandomBlueTint3 (Tuple 0 1) = Inr L"
    by (simp add: RandomBlueTint3_def parse_factor_def)
  define M where "M = UnVectorizable L"
  obtain s where ps: "parse_factor (Tuple 0 1) = Inr s"
    and grt: "get_random_transformation L = get_random_transformation3 s"
    and ai: "augment_image M = (\<lambda>img t g. (augment_image3 img t, g))"
    and al: "augment_label M = augment_label3"
    using layer3_unvectorizable_fields[OF L, of M] unfolding M_def by blast
  have s: "s = UniformFactorSampler 0 1" using ps by (simp add: parse_factor_def)
  have grtM: "get_random_transformation M = get_random_transformation L"
    by (simp add: M_def unvectorizable_fields)
  have pure: "\<And>x t h. augment_image M x t h = (augment_image3 x t, h)" by (simp add: ai)
  have d: "nth_draw (get_random_transformation L) 0 G = Some 127.5"
    "nth_draw (get_random_transformation L) 1 G = Some 153"
    by (simp_all add: grt s nth_draw_def source_after_def get_random_transformation3_def
        next_variate_def G_def)
  have "case RandomBlueTint3 (Tuple 0 1) of
          Inl e \<Rightarrow> False
        | Inr L \<Rightarrow> fst (process (UnVectorizable L) B G) = Inr OUT"
    by (simp add: B_def G_def OUT_def
      RandomBlueTint3_def parse_factor_def BaseImageAugmentationLayer_def
      UnVectorizable_def call_method3
      process_def batch_augment_def get_random_transformation3_def eval_nat_numeral
      augment_image3_def augment_label3_def augment_bounding_boxes3_def scalar_def
      next_variate_def unstack_last_def unpack_last_def stack_last_def stack0_def
      clip_by_value_def add_scalar_def unstack0_def
      batch_targets_def batch_target_def Let_def upt_rec)
  then have ev: "fst (process M B G) = Inr OUT" unfolding L sum.case M_def .
  then obtain g' where p: "process M B G = (Inr OUT, g')" by (cases "process M B G") simp
  have h: "length (shape (images B)) = 4 \<and>
           (\<not> auto_vectorize M \<or> vectorized_augment M = None)"
    by (simp add: B_def M_def unvectorizable_fields)
  note th = descriptor_drawn_once[of M augment_image3, OF pure, where inp = B and g = G,
      THEN conjunct2, THEN conjunct1, THEN mp, OF h, THEN spec, THEN spec, THEN mp, OF p]
  have n: "hd (shape (images B)) = 2" by (simp add: B_def)
  have g': "g' = source_after (get_random_transformation L) 2 G"
    using th unfolding n grtM by blast
  have "\<forall>v. labels B = Some v \<longrightarrow>
          (\<exists>ls v'. labels OUT = Some v' \<and> stack0 ls = Inr v' \<and> length ls = 2 \<and>
             (\<forall>i < 2. augment_label3 (unstack0 v ! i)
                         (nth_draw (get_random_transformation L) i G) = Inr (ls ! i)))"
    using th unfolding n grtM al by blast
  then obtain ls v' where lo: "labels OUT = Some v'" and st: "stack0 ls = Inr v'"
    and li: "\<forall>i < 2. augment_label3 (unstack0 \<lparr>shape = [2, 2], elems = [1, 0, 0, 1]\<rparr> ! i)
                         (nth_draw (get_random_transformation L) i G) = Inr (ls ! i)"
    by (auto simp: B_def)
  have u: "unstack0 \<lparr>shape = [2, 2], elems = [1, 0, 0, 1]\<rparr> ! 0 = \<lparr>shape = [2], elems = [1, 0]\<rparr>"
    "unstack0 \<lparr>shape = [2, 2], elems = [1, 0, 0, 1]\<rparr> ! 1 = \<lparr>shape = [2], elems = [0, 1]\<rparr>"
    by (simp_all add: unstack0_def)
  have "augment_label3 (unstack0 \<lparr>shape = [2, 2], elems = [1, 0, 0, 1]\<rparr> ! 0)
          (nth_draw (get_random_transformation L) 0 G) = Inr (ls ! 0)"
       "augment_label3 (unstack0 \<lparr>shape = [2, 2], elems = [1, 0, 0, 1]\<rparr> ! 1)
          (nth_draw (get_random_transformation L) 1 G) = Inr (ls ! 1)"
    using li by simp_all
  then have l01: "augment_label3 \<lparr>shape = [2], elems = [1, 0]\<rparr> (Some 127.5) = Inr (ls ! 0)"
    "augment_label3 \<lparr>shape = [2], elems = [0, 1]\<rparr> (Some 153) = Inr (ls ! 1)"
    unfolding u d by simp_all
  have v': "v' = \<lparr>shape = [2], elems = [2, 2]\<rparr>" using lo by (simp add: OUT_def)
  have ex: "\<exists>ls. stack0 ls = Inr \<lparr>shape = [2], elems = [2, 2]\<rparr> \<and>
           augment_label3 \<lparr>shape = [2], elems = [1, 0]\<rparr> (Some 127.5) = Inr (ls ! 0) \<and>
           augment_label3 \<lparr>shape = [2], elems = [0, 1]\<rparr> (Some 153) = Inr (ls ! 1)"
    using st l01 unfolding v' by blast
  define B0 where "B0 = \<lparr>images = \<lparr>shape = [2, 1, 1, 3], elems = [10, 20, 30, 40, 50, 250]\<rparr>,
                   labels = None,
                   bounding_boxes = Some \<lparr>shape = [2, 1], elems = [5, 7]\<rparr>\<rparr>"
  have wp: "wf_tensor (images B0) \<and> 0 < last (shape (images B0))"
    by (simp add: B0_def wf_tensor_def)
  have h4: "length (shape (images B0)) = 4 \<and> 0 < hd (shape (images B0)) \<and>
            labels B0 = None \<and> batch_field (hd (shape (images B0))) (bounding_boxes B0)"
    by (simp add: B0_def batch_field_def wf_tensor_def)
  have n0: "hd (shape (images B0)) = 2" by (simp add: B0_def)
  note fp = descriptor_drawn_once[of M augment_image3, OF pure, where factor = "Tuple 0 1"
      and inp = B0 and g = G, THEN conjunct2, THEN conjunct2, THEN conjunct1, THEN mp, OF wp,
      unfolded L ps sum.case, THEN conjunct2, THEN bspec, of L, THEN conjunct2, THEN mp, OF _ h4]
  have dd: "nth_draw (draw s) 0 G * 255 = 127.5" "nth_draw (draw s) 1 G * 255 = 153"
    by (simp_all add: s nth_draw_def source_after_def next_variate_def G_def)
  have vB: "augment_image3 (unstack0 (images B0) ! 0) (Some 127.5) =
            Inr \<lparr>shape = [1, 1, 3], elems = [10, 20, 157.5]\<rparr>"
    "augment_image3 (unstack0 (images B0) ! 1) (Some 153) =
            Inr \<lparr>shape = [1, 1, 3], elems = [40, 50, 255]\<rparr>"
    by (simp_all add: B0_def unstack0_def augment_image3_eq wf_tensor_def tint_def)
  from fp obtain out0 where f1: "process L B0 G = (Inr out0, source_after (draw s) 2 G)"
    and f2: "\<forall>i < 2. augment_image3 (unstack0 (images B0) ! i)
                        (Some (nth_draw (draw s) i G * 255)) = Inr (unstack0 (images out0) ! i)"
    and f3: "bounding_boxes out0 = bounding_boxes B0"
    unfolding n0 by auto
  have "augment_image3 (unstack0 (images B0) ! 0) (Some (nth_draw (draw s) 0 G * 255)) =
          Inr (unstack0 (images out0) ! 0)"
       "augment_image3 (unstack0 (images B0) ! 1) (Some (nth_draw (draw s) 1 G * 255)) =
          Inr (unstack0 (images out0) ! 1)"
    using f2 by simp_all
  then have f4: "unstack0 (images out0) ! 0 = \<lparr>shape = [1, 1, 3], elems = [10, 20, 157.5]\<rparr>"
    "unstack0 (images out0) ! 1 = \<lparr>shape = [1, 1, 3], elems = [40, 50, 255]\<rparr>"
    unfolding dd vB by simp_all
  have fx: "\<exists>out. process L
                  \<lparr>images = \<lparr>shape = [2, 1, 1, 3], elems = [10, 20, 30, 40, 50, 250]\<rparr>,
                   labels = None,
                   bounding_boxes = Some \<lparr>shape = [2, 1], elems = [5, 7]\<rparr>\<rparr>
                  (\<lambda>n. if n = 0 then 1 / 2 else 6 / 10) =
                  (Inr out, source_after (draw (UniformFactorSampler 0 1)) 2
                              (\<lambda>n. if n = 0 then 1 / 2 else 6 / 10)) \<and>
           unstack0 (images out) ! 0 = \<lparr>shape = [1, 1, 3], elems = [10, 20, 157.5]\<rparr> \<and>
           unstack0 (images out) ! 1 = \<lparr>shape = [1, 1, 3], elems = [40, 50, 255]\<rparr> \<and>
           bounding_boxes out = Some \<lparr>shape = [2, 1], elems = [5, 7]\<rparr>"
    using f1[unfolded s B0_def G_def] f3[unfolded B0_def] f4 by auto
  show "case RandomBlueTint3 (Tuple 0 1) of
      Inl e \<Rightarrow> False
    | Inr L \<Rightarrow>
        process (UnVectorizable L)
          \<lparr>images = \<lparr>shape = [2, 1, 1, 3], elems = [10, 20, 30, 40, 50, 250]\<rparr>,
           labels = Some \<lparr>shape = [2, 2], elems = [1, 0, 0, 1]\<rparr>,
           bounding_boxes = Some \<lparr>shape = [2, 1], elems = [5, 7]\<rparr>\<rparr>
          (\<lambda>n. if n = 0 then 1 / 2 else 6 / 10) =
          (Inr \<lparr>images = \<lparr>shape = [2, 1, 1, 3], elems = [10, 20, 157.5, 40, 50, 255]\<rparr>,
                labels = Some \<lparr>shape = [2], elems = [2, 2]\<rparr>,
                bounding_boxes = Some \<lparr>shape = [2, 1], elems = [5, 7]\<rparr>\<rparr>,
           source_after (get_random_transformation L) 2
             (\<lambda>n. if n = 0 then 1 / 2 else 6 / 10)) \<and>
        nth_draw (get_random_transformation L) 0 (\<lambda>n. if n = 0 then 1 / 2 else 6 / 10) =
          Some 127.5 \<and>
        nth_draw (get_random_transformation L) 1 (\<lambda>n. if n = 0 then 1 / 2 else 6 / 10) =
          Some 153 \<and>
        (\<exists>ls. stack0 ls = Inr \<lparr>shape = [2], elems = [2, 2]\<rparr> \<and>
           augment_label3 \<lparr>shape = [2], elems = [1, 0]\<rparr> (Some 127.5) = Inr (ls ! 0) \<and>
           augment_label3 \<lparr>shape = [2], elems = [0, 1]\<rparr> (Some 153) = Inr (ls ! 1)) \<and>
        (\<exists>out. process L
                  \<lparr>images = \<lparr>shape = [2, 1, 1, 3], elems = [10, 20, 30, 40, 50, 250]\<rparr>,
                   labels = None,
                   bounding_boxes = Some \<lparr>shape = [2, 1], elems = [5, 7]\<rparr>\<rparr>
                  (\<lambda>n. if n = 0 then 1 / 2 else 6 / 10) =
                  (Inr out, source_after (draw (UniformFactorSampler 0 1)) 2
                              (\<lambda>n. if n = 0 then 1 / 2 else 6 / 10)) \<and>
           unstack0 (images out) ! 0 = \<lparr>shape = [1, 1, 3], elems = [10, 20, 157.5]\<rparr> \<and>
           unstack0 (images out) ! 1 = \<lparr>shape = [1, 1, 3], elems = [40, 50, 255]\<rparr> \<and>
           bounding_boxes out = Some \<lparr>shape = [2, 1], elems = [5, 7]\<rparr>)"
    unfolding L sum.case
    using p[unfolded g' M_def B_def OUT_def G_def] d[unfolded G_def] ex fx by blast
next
  show "case RandomBlueTint3 (Tuple (6 / 10) (6 / 10)) of
      Inl e \<Rightarrow> False
    | Inr L \<Rightarrow>
        get_random_transformation L (\<lambda>n. 0) = (Some 153, \<lambda>n. 0) \<and>
        process L \<lparr>images = \<lparr>shape = [1, 1, 3], elems = [10, 20, 30]\<rparr>,
                   labels = Some \<lparr>shape = [1, 2], elems = [1, 0]\<rparr>,
                   bounding_boxes = None\<rparr> (\<lambda>n. 0) =
          (Inr \<lparr>images = \<lparr>shape = [1, 1, 3], elems = [10, 20, 183]\<rparr>,
                labels = Some (scalar 2), bounding_boxes = None\<rparr>, \<lambda>n. 0)"
    using descriptor_drawn_once[of BaseImageAugmentationLayer "\<lambda>x t. Inr x",
        where g = "\<lambda>n. 0" and inp =
        "\<lparr>images = \<lparr>shape = [1, 1, 3], elems = [10, 20, 30]\<rparr>,
          labels = Some \<lparr>shape = [1, 2], elems = [1, 0]\<rparr>, bounding_boxes = None\<rparr>",
        THEN conjunct2, THEN conjunct2, THEN conjunct2]
    by (simp add: BaseImageAugmentationLayer_def wf_tensor_def tint_def split: sum.splits)
next
  define N where "N = BaseImageAugmentationLayer
                 \<lparr>get_random_transformation :=
                    get_random_transformation3 (UniformFactorSampler 0 1),
                  augment_bounding_boxes :=
                    (\<lambda>b t. case t of None \<Rightarrow> Inl ValueError
                            | Some k \<Rightarrow> Inr (add_scalar b k))\<rparr>"
  define S where "S = \<lparr>images = \<lparr>shape = [1, 1, 3], elems = [10, 20, 30]\<rparr>,
         labels = None,
         bounding_boxes = Some \<lparr>shape = [1, 2], elems = [5, 7]\<rparr>\<rparr>"
  have pure: "\<And>x t h. augment_image N x t h = (Inr x, h)"
    by (simp add: N_def BaseImageAugmentationLayer_def)
  have d: "fst (get_random_transformation N (\<lambda>n. 1 / 2)) = Some 127.5"
    by (simp add: N_def get_random_transformation3_def next_variate_def)
  have "\<exists>out g'. process N S (\<lambda>n. 1 / 2) = (Inr out, g')"
    by (simp add: N_def S_def BaseImageAugmentationLayer_def process_def augment_def
        get_random_transformation3_def next_variate_def augment_target_def)
  then obtain out g' where p: "process N S (\<lambda>n. 1 / 2) = (Inr out, g')" by blast
  have r3: "length (shape (images S)) = 3" by (simp add: S_def)
  note th = descriptor_drawn_once[of N "\<lambda>x t. Inr x", OF pure, where inp = S
      and g = "\<lambda>n. 1 / 2", THEN conjunct1, THEN mp, OF r3, THEN spec, THEN spec, THEN mp, OF p]
  then have "augment_target (augment_bounding_boxes N) (bounding_boxes S) (Some 127.5) =
             Inr (bounding_boxes out)"
    unfolding d by blast
  then have "bounding_boxes out = Some \<lparr>shape = [1, 2], elems = [132.5, 134.5]\<rparr>"
    by (simp add: N_def S_def augment_target_def add_scalar_def)
  then show "\<exists>out g'.
      process (BaseImageAugmentationLayer
                 \<lparr>get_random_transformation :=
                    get_random_transformation3 (UniformFactorSampler 0 1),
                  augment_bounding_boxes :=
                    (\<lambda>b t. case t of None \<Rightarrow> Inl ValueError
                            | Some k \<Rightarrow> Inr (add_scalar b k))\<rparr>)
        \<lparr>images = \<lparr>shape = [1, 1, 3], elems = [10, 20, 30]\<rparr>,
         labels = None,
         bounding_boxes = Some \<lparr>shape = [1, 2], elems = [5, 7]\<rparr>\<rparr>
        (\<lambda>n. 1 / 2) = (Inr out, g') \<and>
      bounding_boxes out = Some \<lparr>shape = [1, 2], elems = [132.5, 134.5]\<rparr>"
    using p unfolding N_def S_def by blast
qed

end
